theory Spec2Isabelle
  imports Complex_Main
begin

section \<open>Numbers and dates\<close>

text \<open>
  The program is TypeScript. Its \<open>number\<close> values are modelled as exact reals and
  its integral values (timestamps, hours, minutes, levels) as integers; the non-finite
  values \<open>NaN\<close> and \<open>Infinity\<close> and invalid \<open>Date\<close> objects are outside the
  model. A \<open>Date\<close> is its time value in milliseconds, read on the local civil
  clock of a zone with a constant offset, so that \<open>getTime\<close> differences and
  comparisons are those of the program.
\<close>

type_synonym Date = int

definition getTime :: "Date \<Rightarrow> int" where
  "getTime d = d"

definition msPerDay :: int where
  "msPerDay = 86400000"

definition getHours :: "Date \<Rightarrow> int" where
  "getHours d = (d div 3600000) mod 24"

definition getMinutes :: "Date \<Rightarrow> int" where
  "getMinutes d = (d div 60000) mod 60"

definition getSeconds :: "Date \<Rightarrow> int" where
  "getSeconds d = (d div 1000) mod 60"

definition getMilliseconds :: "Date \<Rightarrow> int" where
  "getMilliseconds d = d mod 1000"

text \<open>The calendar day of a date, as the number of whole days since the epoch.\<close>

definition Day :: "Date \<Rightarrow> int" where
  "Day d = d div msPerDay"

text \<open>
  \<open>setHours(h, m, s, ms)\<close> and \<open>setMinutes(m, s, ms)\<close> keep the day and rebuild
  the time within the day arithmetically: a component out of its usual range carries
  into the next unit (60 minutes are one more hour), as \<open>MakeTime\<close> does.
\<close>

definition setHours :: "Date \<Rightarrow> int \<Rightarrow> int \<Rightarrow> int \<Rightarrow> int \<Rightarrow> Date" where
  "setHours d h m s ms = Day d * msPerDay + h * 3600000 + m * 60000 + s * 1000 + ms"

definition setMinutes :: "Date \<Rightarrow> int \<Rightarrow> int \<Rightarrow> int \<Rightarrow> Date" where
  "setMinutes d m s ms = Day d * msPerDay + getHours d * 3600000 + m * 60000 + s * 1000 + ms"

text \<open>\<open>Math.round\<close> rounds to the nearest integer, a half towards plus infinity.\<close>

definition Math_round :: "real \<Rightarrow> int" where
  "Math_round x = \<lfloor>x + 1 / 2\<rfloor>"

definition Math_floor :: "real \<Rightarrow> int" where
  "Math_floor x = \<lfloor>x\<rfloor>"

definition Math_abs :: "real \<Rightarrow> real" where
  "Math_abs x = (if x < 0 then - x else x)"

text \<open>The remainder operator \<open>%\<close>: the quotient is truncated towards zero, so the
  result has the sign of the dividend.\<close>

definition js_trunc :: "real \<Rightarrow> int" where
  "js_trunc x = (if 0 \<le> x then \<lfloor>x\<rfloor> else \<lceil>x\<rceil>)"

definition js_rem :: "real \<Rightarrow> real \<Rightarrow> real" where
  "js_rem x y = x - y * of_int (js_trunc (x / y))"

text \<open>\<open>new Date(x)\<close> of a number drops the fraction of a millisecond.\<close>

definition Date_of_number :: "real \<Rightarrow> Date" where
  "Date_of_number x = js_trunc x"

section \<open>Geometry kernel (time-utils)\<close>

definition timeToAngle :: "Date \<Rightarrow> real" where
  "timeToAngle date =
     (let hours = getHours date; minutes = getMinutes date
      in (of_int hours + of_int minutes / 60) * 15)"

definition angleToTime :: "real \<Rightarrow> Date \<Rightarrow> Date" where
  "angleToTime angle baseDate =
     (let normalizedAngle = js_rem (angle + 360) 360;
          totalHours = normalizedAngle / 15;
          hours = Math_floor totalHours;
          minutes = Math_round ((totalHours - of_int hours) * 60)
      in setHours baseDate hours minutes 0 0)"

definition snapAngleTo15Min :: "real \<Rightarrow> real" where
  "snapAngleTo15Min angle = (let step = 3.75 in of_int (Math_round (angle / step)) * step)"

text \<open>
  \<open>polarToCartesian\<close> and \<open>describeArc\<close>. The path string is the join of an array
  of letters and numbers; the model keeps the array (the printing of a number is not
  modelled), so two paths are equal when their arrays are.
\<close>

record Point =
  point_x :: real
  point_y :: real

definition polarToCartesian :: "real \<Rightarrow> real \<Rightarrow> real \<Rightarrow> real \<Rightarrow> Point" where
  "polarToCartesian centerX centerY radius angleInDegrees =
     (let angleInRadians = ((angleInDegrees - 90) * pi) / 180
      in \<lparr>point_x = centerX + radius * cos angleInRadians,
          point_y = centerY + radius * sin angleInRadians\<rparr>)"

datatype PathItem = Str string | Num real

text \<open>The value of \<open>endAngle\<close> after the guard at the head of \<open>describeArc\<close>.\<close>

definition clampedEndAngle :: "real \<Rightarrow> real \<Rightarrow> real" where
  "clampedEndAngle startAngle endAngle =
     (if Math_abs (endAngle - startAngle) \<ge> 360 then startAngle + 359.99 else endAngle)"

definition describeArc :: "real \<Rightarrow> real \<Rightarrow> real \<Rightarrow> real \<Rightarrow> real \<Rightarrow> PathItem list" where
  "describeArc cx cy radius startAngle endAngle0 =
     (let endAngle = clampedEndAngle startAngle endAngle0;
          startP = polarToCartesian cx cy radius endAngle;
          endP = polarToCartesian cx cy radius startAngle;
          largeArcFlag = (if endAngle - startAngle \<le> 180 then ''0'' else ''1'')
      in [Str ''M'', Num (point_x startP), Num (point_y startP),
          Str ''A'', Num radius, Num radius, Num 0, Str largeArcFlag, Num 0,
          Num (point_x endP), Num (point_y endP),
          Str ''L'', Num cx, Num cy,
          Str ''Z''])"

text \<open>The point after \<open>M\<close> and the end point of the \<open>A\<close> command of a path.\<close>

definition pathMovePoint :: "PathItem list \<Rightarrow> PathItem list" where
  "pathMovePoint d = take 2 (drop 1 d)"

definition pathArcEndPoint :: "PathItem list \<Rightarrow> PathItem list" where
  "pathArcEndPoint d = take 2 (drop 9 d)"

section \<open>Activities and the store (ChronodexService)\<close>

record Activity =
  act_id :: string
  title :: string
  startTime :: Date
  endTime :: Date
  durationMinutes :: real
  color :: string

text \<open>
  The service holds the current list (the value of its \<open>BehaviorSubject\<close>), the
  entry of \<open>localStorage\<close> under the storage key (the list last serialised, if any) and,
  to make a notification visible, the number of \<open>next\<close> calls made so far. The
  component's field \<open>activities\<close> is set by its subscription at every \<open>next\<close>, so it
  is the subject's value.
\<close>

record ChronodexService =
  activitiesSubject :: "Activity list"
  localStorage :: "Activity list option"
  nextCalls :: nat

fun findIndex :: "('a \<Rightarrow> bool) \<Rightarrow> 'a list \<Rightarrow> int" where
  "findIndex P [] = - 1"
| "findIndex P (a # as) =
     (if P a then 0 else (let i = findIndex P as in if i = - 1 then - 1 else i + 1))"

definition saveToStorage :: "Activity list \<Rightarrow> ChronodexService \<Rightarrow> ChronodexService" where
  "saveToStorage activities svc = svc\<lparr>localStorage := Some activities\<rparr>"

definition next_value :: "Activity list \<Rightarrow> ChronodexService \<Rightarrow> ChronodexService" where
  "next_value activities svc =
     svc\<lparr>activitiesSubject := activities, nextCalls := nextCalls svc + 1\<rparr>"

definition addActivity :: "Activity \<Rightarrow> ChronodexService \<Rightarrow> ChronodexService" where
  "addActivity activity svc =
     (let current = activitiesSubject svc;
          updated = current @ [activity]
      in saveToStorage updated (next_value updated svc))"

definition updateActivity :: "Activity \<Rightarrow> ChronodexService \<Rightarrow> ChronodexService" where
  "updateActivity activity svc =
     (let current = activitiesSubject svc;
          index = findIndex (\<lambda>a. act_id a = act_id activity) current
      in if index \<noteq> - 1
         then (let updated = current[nat index := activity]
               in saveToStorage updated (next_value updated svc))
         else svc)"

definition deleteActivity :: "string \<Rightarrow> ChronodexService \<Rightarrow> ChronodexService" where
  "deleteActivity ident svc =
     (let current = activitiesSubject svc;
          updated = filter (\<lambda>a. act_id a \<noteq> ident) current
      in saveToStorage updated (next_value updated svc))"

definition clearActivities :: "ChronodexService \<Rightarrow> ChronodexService" where
  "clearActivities svc = saveToStorage [] (next_value [] svc)"

section \<open>The component (ChronodexComponent)\<close>

subsection \<open>Overlap levels\<close>

record LeveledActivity = Activity +
  level :: nat

definition areOverlapping :: "'a Activity_scheme \<Rightarrow> 'b Activity_scheme \<Rightarrow> bool" where
  "areOverlapping a b =
     (let start1 = getTime (startTime a); end1 = getTime (endTime a);
          start2 = getTime (startTime b); end2 = getTime (endTime b)
      in (start1 < end2) \<and> (end1 > start2))"

text \<open>The object \<open>{ ...act, level }\<close>.\<close>

definition withLevel :: "Activity \<Rightarrow> nat \<Rightarrow> LeveledActivity" where
  "withLevel act lvl =
     \<lparr>act_id = act_id act, title = title act, startTime = startTime act,
      endTime = endTime act, durationMinutes = durationMinutes act, color = color act,
      level = lvl\<rparr>"

text \<open>The test of the \<open>while\<close> loop: some placed activity has this level and overlaps.\<close>

definition levelTaken :: "LeveledActivity list \<Rightarrow> Activity \<Rightarrow> nat \<Rightarrow> bool" where
  "levelTaken result act lvl = list_ex (\<lambda>r. level r = lvl \<and> areOverlapping act r) result"

text \<open>The \<open>while\<close> loop, from the level it has reached.\<close>

function firstFreeLevel :: "LeveledActivity list \<Rightarrow> Activity \<Rightarrow> nat \<Rightarrow> nat" where
  "firstFreeLevel result act lvl =
     (if levelTaken result act lvl then firstFreeLevel result act (lvl + 1) else lvl)"
  by pat_completeness auto
termination
proof (relation "measure (\<lambda>(result, act, lvl). Suc (Max (insert 0 (level ` set result))) - lvl)")
  show "wf (measure (\<lambda>(result, act, lvl). Suc (Max (insert 0 (level ` set result))) - lvl))"
    by simp
next
  fix result :: "LeveledActivity list" and act :: Activity and lvl :: nat
  assume "levelTaken result act lvl"
  then have "lvl \<in> insert 0 (level ` set result)"
    by (auto simp: levelTaken_def list_ex_iff)
  then have "lvl \<le> Max (insert 0 (level ` set result))"
    by (intro Max_ge) auto
  then show "((result, act, lvl + 1), (result, act, lvl))
      \<in> measure (\<lambda>(result, act, lvl). Suc (Max (insert 0 (level ` set result))) - lvl)"
    by simp
qed

declare firstFreeLevel.simps [simp del]

text \<open>The body of the \<open>for\<close> loop, and the getter: a stable sort by start time, then
  the loop over the sorted list.\<close>

definition placeActivity :: "LeveledActivity list \<Rightarrow> Activity \<Rightarrow> LeveledActivity list" where
  "placeActivity result act = result @ [withLevel act (firstFreeLevel result act 0)]"

definition leveledActivities :: "Activity list \<Rightarrow> LeveledActivity list" where
  "leveledActivities activities =
     (let sorted = sort_key (\<lambda>a. getTime (startTime a)) activities
      in foldl placeActivity [] sorted)"

subsection \<open>State of the component\<close>

text \<open>
  \<open>getAngleFromEvent\<close> on the pointer position in the coordinates of the drawing
  surface (the lookup of the surface and its screen transform are outside the model;
  \<open>None\<close> stands for a missing surface, transform or touch point). \<open>Math.atan2(dy, dx)\<close>
  is the argument of the point \<open>(dx, dy)\<close>, which is 0 at the origin.
\<close>

definition getAngleFromEvent :: "real \<Rightarrow> (real \<times> real) option \<Rightarrow> real" where
  "getAngleFromEvent center svgPt =
     (case svgPt of
        None \<Rightarrow> 0
      | Some (px, py) \<Rightarrow>
          (let dx = px - center; dy = py - center;
               angle = (Arg (Complex dx dy) * 180) / pi + 90
           in if angle < 0 then angle + 360 else angle))"

text \<open>
  In the handlers a pointer event is represented by the angle that \<open>getAngleFromEvent\<close>
  returns for it, which lies in the range from 0 up to, not including, 360. The current
  time, the fresh identifier and the random colour of \<open>addNow\<close> are parameters.
\<close>

datatype DragMode = Start | End | Move

record ChronodexComponent =
  service :: ChronodexService
  isDragging :: bool
  draggedActivityId :: "string option"
  dragMode :: DragMode
  dragStartAngle :: real
  initialStartTime :: "Date option"
  initialEndTime :: "Date option"
  initialDuration :: "real option"
  hasMoved :: bool
  isModalOpen :: bool
  editingActivity :: "Activity option"

definition activities :: "ChronodexComponent \<Rightarrow> Activity list" where
  "activities c = activitiesSubject (service c)"

text \<open>A string or \<open>null\<close> is truthy when it is a non-empty string.\<close>

definition truthy_id :: "string option \<Rightarrow> bool" where
  "truthy_id v = (case v of None \<Rightarrow> False | Some s \<Rightarrow> s \<noteq> [])"

text \<open>\<open>a || b\<close> on an optional number: \<open>undefined\<close> and 0 are falsy.\<close>

definition or_else :: "real option \<Rightarrow> real \<Rightarrow> real" where
  "or_else a b = (case a of None \<Rightarrow> b | Some v \<Rightarrow> if v = 0 then b else v)"

subsection \<open>Adding an activity\<close>

definition addNow :: "Date \<Rightarrow> string \<Rightarrow> string \<Rightarrow> ChronodexComponent \<Rightarrow> ChronodexComponent" where
  "addNow now uuid randomColor c =
     (let minutes = getMinutes now;
          roundedMinutes = Math_round (of_int minutes / 15) * 15;
          startTime = setMinutes now roundedMinutes 0 0;
          endTime = Date_of_number (of_int (getTime startTime + 60 * 60 * 1000));
          newActivity = \<lparr>act_id = uuid, title = ''New Activity'', startTime = startTime,
                         endTime = endTime, durationMinutes = 60, color = randomColor\<rparr>
      in c\<lparr>service := addActivity newActivity (service c)\<rparr>)"

subsection \<open>Dragging (the variant with the move mode)\<close>

definition handleMouseDown :: "real \<Rightarrow> string \<Rightarrow> DragMode \<Rightarrow> ChronodexComponent \<Rightarrow> ChronodexComponent" where
  "handleMouseDown eventAngle activityId mode c =
     (let c1 = c\<lparr>isDragging := True, draggedActivityId := Some activityId,
                  dragMode := mode, dragStartAngle := eventAngle\<rparr>
      in case find (\<lambda>a. act_id a = activityId) (activities c1) of
           Some activity \<Rightarrow>
             c1\<lparr>initialStartTime := Some (startTime activity),
                initialEndTime := Some (endTime activity),
                initialDuration := Some (durationMinutes activity),
                hasMoved := False\<rparr>
         | None \<Rightarrow> c1)"

text \<open>The duration computed after a drag of a handle: the difference in minutes, plus a
  day when negative.\<close>

definition wrappedDiff :: "Date \<Rightarrow> Date \<Rightarrow> real" where
  "wrappedDiff startT endT =
     (let diff = of_int (getTime endT - getTime startT) / (1000 * 60)
      in if diff < 0 then diff + 24 * 60 else diff)"

text \<open>The value of \<open>updatedActivity\<close> in \<open>onMove\<close> when the comparison with the
  current times is made.\<close>

definition updatedActivity :: "ChronodexComponent \<Rightarrow> Activity \<Rightarrow> real \<Rightarrow> Activity" where
  "updatedActivity c activity snappedAngle =
     (if dragMode c = Move \<and> initialStartTime c \<noteq> None \<and> initialEndTime c \<noteq> None then
        (let angleDiff = snappedAngle - snapAngleTo15Min (dragStartAngle c);
             timeDiffMs = (angleDiff / 15) * 60 * 60 * 1000
         in activity
              \<lparr>startTime :=
                 Date_of_number (of_int (getTime (the (initialStartTime c))) + timeDiffMs),
               endTime :=
                 Date_of_number (of_int (getTime (the (initialEndTime c))) + timeDiffMs),
               durationMinutes := or_else (initialDuration c) (durationMinutes activity)\<rparr>)
      else if dragMode c = End then
        (let newEnd = angleToTime snappedAngle (startTime activity)
         in activity\<lparr>endTime := newEnd,
                      durationMinutes := wrappedDiff (startTime activity) newEnd\<rparr>)
      else if dragMode c = Start then
        (let newStart = angleToTime snappedAngle (endTime activity)
         in activity\<lparr>startTime := newStart,
                      durationMinutes := wrappedDiff newStart (endTime activity)\<rparr>)
      else activity)"

definition hasChanged :: "Activity \<Rightarrow> Activity \<Rightarrow> bool" where
  "hasChanged updated activity =
     (getTime (startTime updated) \<noteq> getTime (startTime activity)
      \<or> getTime (endTime updated) \<noteq> getTime (endTime activity))"

definition onMove :: "real \<Rightarrow> ChronodexComponent \<Rightarrow> ChronodexComponent" where
  "onMove eventAngle c =
     (if \<not> isDragging c \<or> \<not> truthy_id (draggedActivityId c) then c
      else
        let angle = eventAngle;
            c1 = (if \<not> hasMoved c \<and> Math_abs (angle - dragStartAngle c) > 2
                  then c\<lparr>hasMoved := True\<rparr> else c)
        in if \<not> hasMoved c1 \<and> dragMode c1 = Move then c1
           else
             let snappedAngle = snapAngleTo15Min angle
             in case find (\<lambda>a. Some (act_id a) = draggedActivityId c1) (activities c1) of
                  None \<Rightarrow> c1
                | Some activity \<Rightarrow>
                    (let updated = updatedActivity c1 activity snappedAngle
                     in if hasChanged updated activity
                        then c1\<lparr>service := updateActivity updated (service c1)\<rparr>
                        else c1))"

definition onEnd :: "ChronodexComponent \<Rightarrow> ChronodexComponent" where
  "onEnd c = c\<lparr>isDragging := False, draggedActivityId := None\<rparr>"

subsection \<open>Dragging (the variant without the move mode)\<close>

definition onMouseMove :: "real \<Rightarrow> ChronodexComponent \<Rightarrow> ChronodexComponent" where
  "onMouseMove eventAngle c =
     (if \<not> isDragging c \<or> \<not> truthy_id (draggedActivityId c) then c
      else
        let angle = eventAngle;
            snappedAngle = snapAngleTo15Min angle
        in case find (\<lambda>a. Some (act_id a) = draggedActivityId c) (activities c) of
             None \<Rightarrow> c
           | Some activity \<Rightarrow>
               (let moved = (if dragMode c = End
                             then activity\<lparr>endTime := angleToTime snappedAngle (startTime activity)\<rparr>
                             else activity\<lparr>startTime := angleToTime snappedAngle (endTime activity)\<rparr>);
                    updated = moved\<lparr>durationMinutes := wrappedDiff (startTime moved) (endTime moved)\<rparr>
                in c\<lparr>service := updateActivity updated (service c)\<rparr>))"

subsection \<open>The edit modal\<close>

definition closeModal :: "ChronodexComponent \<Rightarrow> ChronodexComponent" where
  "closeModal c = c\<lparr>isModalOpen := False, editingActivity := None\<rparr>"

definition openEditModal :: "Activity \<Rightarrow> ChronodexComponent \<Rightarrow> ChronodexComponent" where
  "openEditModal activity c =
     (if hasMoved c then c else c\<lparr>editingActivity := Some activity, isModalOpen := True\<rparr>)"

definition saveActivity :: "ChronodexComponent \<Rightarrow> ChronodexComponent" where
  "saveActivity c =
     (case editingActivity c of
        Some edited \<Rightarrow> closeModal (c\<lparr>service := updateActivity edited (service c)\<rparr>)
      | None \<Rightarrow> c)"

section \<open>Example values\<close>

text \<open>An activity from \<open>h1:m1\<close> to \<open>h2:m2\<close> on the day of the epoch, with the
  duration that a drag of a handle would compute; used to instantiate the theorems.\<close>

definition exampleActivity :: "string \<Rightarrow> int \<Rightarrow> int \<Rightarrow> int \<Rightarrow> int \<Rightarrow> Activity" where
  "exampleActivity name h1 m1 h2 m2 =
     \<lparr>act_id = name, title = name,
      startTime = setHours 0 h1 m1 0 0, endTime = setHours 0 h2 m2 0 0,
      durationMinutes = wrappedDiff (setHours 0 h1 m1 0 0) (setHours 0 h2 m2 0 0),
      color = ''#54a0ff''\<rparr>"

text \<open>The component as its field initialisers leave it, over a store that holds and has
  saved the given list.\<close>

definition exampleComponent :: "Activity list \<Rightarrow> ChronodexComponent" where
  "exampleComponent acts =
     \<lparr>service = \<lparr>activitiesSubject = acts, localStorage = Some acts, nextCalls = 0\<rparr>,
      isDragging = False, draggedActivityId = None, dragMode = End, dragStartAngle = 0,
      initialStartTime = None, initialEndTime = None, initialDuration = None,
      hasMoved = False, isModalOpen = False, editingActivity = None\<rparr>"

section \<open>Properties of the geometry kernel\<close>

lemma Math_round_of_int: "Math_round (of_int k) = k"
  unfolding Math_round_def by linarith

lemma snap_of_multiple: "snapAngleTo15Min (of_int k * 3.75) = of_int k * 3.75"
  unfolding snapAngleTo15Min_def Let_def by (simp add: Math_round_of_int)

text \<open>
  Claim C5. For every angle, \<open>snapAngleTo15Min\<close> returns an integer multiple of 3.75
  degrees, and snapping a snapped angle returns it unchanged.
\<close>

theorem C5_snap_multiple_idempotent:
  "(\<exists>k::int. snapAngleTo15Min a = of_int k * 3.75)
   \<and> snapAngleTo15Min (snapAngleTo15Min a) = snapAngleTo15Min a"
proof -
  define k where "k = Math_round (a / 3.75)"
  have eq: "snapAngleTo15Min a = of_int k * 3.75"
    unfolding snapAngleTo15Min_def Let_def k_def by simp
  have "snapAngleTo15Min (snapAngleTo15Min a) = snapAngleTo15Min a"
    unfolding eq by (rule snap_of_multiple)
  with eq show ?thesis by blast
qed

lemma js_rem_360: "0 \<le> a \<Longrightarrow> a < 360 \<Longrightarrow> js_rem (a + 360) 360 = a"
proof -
  assume a: "0 \<le> a" "a < 360"
  have "\<lfloor>(a + 360) / 360\<rfloor> = 1"
    using a by (intro floor_unique) auto
  with a show ?thesis by (simp add: js_rem_def js_trunc_def)
qed

lemma getHours_range: "0 \<le> getHours t \<and> getHours t < 24"
  by (simp add: getHours_def)

lemma getMinutes_range: "0 \<le> getMinutes t \<and> getMinutes t < 60"
  by (simp add: getMinutes_def)

lemma div_decomp:
  fixes q r b :: int
  assumes "0 \<le> r" "r < b"
  shows "(q * b + r) div b = q" and "(q * b + r) mod b = r"
  using assms by simp_all

lemma time_fields:
  fixes D h m :: int
  assumes "0 \<le> h" "h < 24" "0 \<le> m" "m < 60"
  defines "x \<equiv> D * msPerDay + h * 3600000 + m * 60000"
  shows "getHours x = h" "getMinutes x = m" "getSeconds x = 0" "getMilliseconds x = 0" "Day x = D"
proof -
  have xh: "x = (D * 24 + h) * 3600000 + m * 60000"
    by (simp add: x_def msPerDay_def)
  have "x div 3600000 = D * 24 + h"
    unfolding xh using assms(3,4) by (intro div_decomp) auto
  moreover have "(D * 24 + h) mod 24 = h"
    using assms(1,2) by (intro div_decomp) auto
  ultimately show "getHours x = h"
    unfolding getHours_def by (simp only:)
  have xm: "x = (D * 1440 + h * 60 + m) * 60000 + 0"
    by (simp add: x_def msPerDay_def)
  have "x div 60000 = (D * 24 + h) * 60 + m"
    unfolding xm by simp
  moreover have "((D * 24 + h) * 60 + m) mod 60 = m"
    using assms(3,4) by (intro div_decomp) auto
  ultimately show "getMinutes x = m"
    unfolding getMinutes_def by (simp only:)
  have xs: "x = (D * 86400 + h * 3600 + m * 60) * 1000 + 0"
    by (simp add: x_def msPerDay_def)
  have "x div 1000 = (D * 1440 + h * 60 + m) * 60 + 0"
    unfolding xs by simp
  then show "getSeconds x = 0"
    by (simp add: getSeconds_def)
  show "getMilliseconds x = 0"
    unfolding xs getMilliseconds_def by simp
  have xd: "x = D * 86400000 + (h * 3600000 + m * 60000)"
    by (simp add: x_def msPerDay_def)
  show "Day x = D"
    unfolding Day_def msPerDay_def xd using assms(1-4) by (intro div_decomp) auto
qed

lemma angleToTime_timeToAngle:
  "angleToTime (timeToAngle t) t = Day t * msPerDay + getHours t * 3600000 + getMinutes t * 60000"
proof -
  define h where "h = getHours t"
  define m where "m = getMinutes t"
  have h: "0 \<le> h" "h < 24" and m: "0 \<le> m" "m < 60"
    using getHours_range [of t] getMinutes_range [of t] by (simp_all add: h_def m_def)
  define a where "a = (real_of_int h + real_of_int m / 60) * 15"
  have a: "0 \<le> a" "a < 360"
    using h m by (simp_all add: a_def)
  have rem: "js_rem (a + 360) 360 = a"
    using a by (rule js_rem_360)
  have tot: "a / 15 = real_of_int h + real_of_int m / 60"
    by (simp add: a_def)
  have fl: "\<lfloor>real_of_int h + real_of_int m / 60\<rfloor> = h"
    using m by (intro floor_unique) auto
  have rd: "Math_round ((real_of_int h + real_of_int m / 60 - real_of_int h) * 60) = m"
    by (simp add: Math_round_of_int)
  show ?thesis
    unfolding angleToTime_def timeToAngle_def Let_def
    unfolding h_def [symmetric] m_def [symmetric] a_def [symmetric]
    by (simp add: rem tot Math_floor_def fl Math_round_of_int setHours_def)
qed


text \<open>
  Claim C1. For every date \<open>t\<close>, \<open>angleToTime (timeToAngle t) t\<close> has the hours and
  the minutes of \<open>t\<close> (exactly, hence within one minute), lies on the calendar day of
  \<open>t\<close>, and has seconds and milliseconds zero.
\<close>

theorem C1_roundtrip:
  "getHours (angleToTime (timeToAngle t) t) = getHours t
   \<and> getMinutes (angleToTime (timeToAngle t) t) = getMinutes t
   \<and> getSeconds (angleToTime (timeToAngle t) t) = 0
   \<and> getMilliseconds (angleToTime (timeToAngle t) t) = 0
   \<and> Day (angleToTime (timeToAngle t) t) = Day t"
  unfolding angleToTime_timeToAngle
  using getHours_range [of t] getMinutes_range [of t]
  by (simp add: time_fields)

lemma Date_of_number_of_int: "Date_of_number (of_int z) = z"
  by (simp add: Date_of_number_def js_trunc_def)

lemma quarter_fields:
  fixes n :: int
  shows "getMinutes (n * 900000) mod 15 = 0"
    and "getSeconds (n * 900000) = 0"
    and "getMilliseconds (n * 900000) = 0"
proof -
  have m: "n * 900000 = (n * 15) * 60000 + 0" by simp
  have "(n * 900000) div 60000 = n * 15"
    unfolding m by simp
  then have "getMinutes (n * 900000) = (n * 15) mod 60"
    unfolding getMinutes_def by (simp only:)
  moreover have "(n * 15) mod 60 mod 15 = (n * 15) mod 15"
    by (rule mod_mod_cancel) simp
  ultimately show "getMinutes (n * 900000) mod 15 = 0" by simp
  have s: "n * 900000 = (n * 15 * 60) * 1000 + 0" by simp
  have "(n * 900000) div 1000 = n * 15 * 60"
    unfolding s by simp
  then have "getSeconds (n * 900000) = (n * 15 * 60) mod 60"
    unfolding getSeconds_def by (simp only:)
  then show "getSeconds (n * 900000) = 0"
    by simp
  show "getMilliseconds (n * 900000) = 0"
    unfolding s getMilliseconds_def by simp
qed

lemma addNow_startTime:
  "setMinutes now (Math_round (of_int (getMinutes now) / 15) * 15) 0 0
     = (Day now * 96 + getHours now * 4 + Math_round (of_int (getMinutes now) / 15)) * 900000"
  by (simp add: setMinutes_def msPerDay_def algebra_simps)

lemma addNow_endTime:
  "Date_of_number (of_int (getTime st + 60 * 60 * 1000)) = st + 3600000"
proof -
  have "Date_of_number (of_int (getTime st + 60 * 60 * 1000)) = getTime st + 60 * 60 * 1000"
    by (rule Date_of_number_of_int)
  then show ?thesis by (simp add: getTime_def)
qed

lemma addNow_list:
  "activities (addNow now uuid randomColor c) = activities c @
     [\<lparr>act_id = uuid, title = ''New Activity'',
       startTime = setMinutes now (Math_round (of_int (getMinutes now) / 15) * 15) 0 0,
       endTime = Date_of_number (of_int (getTime (setMinutes now
                   (Math_round (of_int (getMinutes now) / 15) * 15) 0 0) + 60 * 60 * 1000)),
       durationMinutes = 60, color = randomColor\<rparr>]"
  unfolding addNow_def Let_def activities_def addActivity_def saveToStorage_def next_value_def
  by simp

text \<open>
  Claim C7. Whatever the current time, the identifier and the colour, \<open>addNow\<close>
  appends one activity whose \<open>durationMinutes\<close> is 60, whose end is its start plus 60
  minutes, and whose start has minutes divisible by 15 and seconds and milliseconds zero.
\<close>

theorem C7_addNow:
  "\<exists>a. activities (addNow now uuid randomColor c) = activities c @ [a]
     \<and> durationMinutes a = 60
     \<and> getTime (endTime a) = getTime (startTime a) + 60 * 60 * 1000
     \<and> getMinutes (startTime a) mod 15 = 0
     \<and> getSeconds (startTime a) = 0
     \<and> getMilliseconds (startTime a) = 0"
proof -
  define st where "st = setMinutes now (Math_round (of_int (getMinutes now) / 15) * 15) 0 0"
  define en where "en = Date_of_number (of_int (getTime st + 60 * 60 * 1000))"
  define a where "a = \<lparr>act_id = uuid, title = ''New Activity'', startTime = st,
     endTime = en, durationMinutes = 60, color = randomColor\<rparr>"
  have en: "en = st + 3600000"
    unfolding en_def by (rule addNow_endTime)
  have "\<exists>n. st = n * 900000"
    unfolding st_def addNow_startTime by (rule exI) (rule refl)
  then obtain n where n: "st = n * 900000" ..
  have sel: "startTime a = n * 900000" "endTime a = n * 900000 + 3600000" "durationMinutes a = 60"
    by (simp_all add: a_def n en)
  have 1: "activities (addNow now uuid randomColor c) = activities c @ [a]"
    unfolding a_def en_def st_def by (rule addNow_list)
  have 2: "durationMinutes a = 60" by (rule sel)
  have 3: "getTime (endTime a) = getTime (startTime a) + 60 * 60 * 1000"
    unfolding sel getTime_def by simp
  have 4: "getMinutes (startTime a) mod 15 = 0"
    unfolding sel by (rule quarter_fields)
  have 5: "getSeconds (startTime a) = 0"
    unfolding sel by (rule quarter_fields)
  have 6: "getMilliseconds (startTime a) = 0"
    unfolding sel by (rule quarter_fields)
  from 1 2 3 4 5 6 show ?thesis
    by (intro exI [of _ a] conjI)
qed

lemma snap_near_360:
  assumes "358.125 < a" "a < 360"
  shows "snapAngleTo15Min a = 360"
proof -
  have "\<lfloor>a / 3.75 + 1 / 2\<rfloor> = 96"
    using assms by (intro floor_unique) auto
  then show ?thesis
    by (simp add: snapAngleTo15Min_def Math_round_def)
qed

lemma angleToTime_360: "angleToTime 360 d = Day d * msPerDay"
proof -
  have "js_rem (360 + 360) 360 = 0"
    by (simp add: js_rem_def js_trunc_def)
  then show ?thesis
    by (simp add: angleToTime_def Math_floor_def Math_round_def setHours_def)
qed

lemma midnight_fields:
  "getHours (D * msPerDay) = 0" "getMinutes (D * msPerDay) = 0" "Day (D * msPerDay) = D"
  using time_fields(1,2,5) [of 0 0 D] by simp_all

text \<open>
  Claim C10. Every angle strictly between 358.125 and 360 is snapped to exactly 360, so
  the snapped angle is not below 360; \<open>angleToTime\<close> turns that snapped angle into
  00:00 on the day of the base date.
\<close>

theorem C10_snap_360_is_midnight:
  assumes "358.125 < a" "a < 360"
  shows "snapAngleTo15Min a = 360
     \<and> \<not> snapAngleTo15Min a < 360
     \<and> getHours (angleToTime (snapAngleTo15Min a) d) = 0
     \<and> getMinutes (angleToTime (snapAngleTo15Min a) d) = 0
     \<and> Day (angleToTime (snapAngleTo15Min a) d) = Day d"
  using snap_near_360 [OF assms] by (simp add: angleToTime_360 midnight_fields)

theorem C10_witness:
  "(358.125 :: real) < 359 \<and> (359 :: real) < 360
   \<and> snapAngleTo15Min 359 = 360
   \<and> \<not> snapAngleTo15Min 359 < 360
   \<and> getHours (angleToTime (snapAngleTo15Min 359) 1000000000123) = 0
   \<and> getMinutes (angleToTime (snapAngleTo15Min 359) 1000000000123) = 0
   \<and> Day (angleToTime (snapAngleTo15Min 359) 1000000000123) = Day 1000000000123"
proof -
  have h1: "(358.125 :: real) < 359" and h2: "(359 :: real) < 360" by simp_all
  show ?thesis
    using h1 h2 C10_snap_360_is_midnight [OF h1 h2, of 1000000000123] by blast
qed

section \<open>Properties of the store\<close>

lemma findIndex_ge: "- 1 \<le> findIndex P xs"
  by (induction xs) (auto simp: Let_def)

lemma findIndex_none: "findIndex P xs = - 1 \<longleftrightarrow> (\<forall>x \<in> set xs. \<not> P x)"
proof (induction xs)
  case Nil
  show ?case by simp
next
  case (Cons a as)
  have "- 1 \<le> findIndex P as" by (rule findIndex_ge)
  with Cons show ?case by (auto simp: Let_def)
qed

lemma findIndex_find:
  "find P xs = Some a \<Longrightarrow>
     0 \<le> findIndex P xs \<and> nat (findIndex P xs) < length xs \<and> xs ! nat (findIndex P xs) = a"
proof (induction xs)
  case Nil
  then show ?case by simp
next
  case (Cons b bs)
  show ?case
  proof (cases "P b")
    case True
    with Cons.prems show ?thesis by simp
  next
    case False
    with Cons.prems have f: "find P bs = Some a" by simp
    note ih = Cons.IH [OF f]
    then have "findIndex P bs \<noteq> - 1" by linarith
    with ih False show ?thesis
      by (simp add: Let_def nat_add_distrib)
  qed
qed

text \<open>
  Claim C9. When no stored activity has the identifier, \<open>updateActivity\<close> returns the
  service unchanged (list, storage and notifications), and \<open>deleteActivity\<close> keeps
  every stored activity, writing the same list to storage. Both are total functions: no
  branch of either raises.
\<close>

theorem C9_unknown_id_noop:
  assumes "\<not> list_ex (\<lambda>a. act_id a = ident) (activitiesSubject svc)"
    and "act_id activity = ident"
  shows "updateActivity activity svc = svc
     \<and> activitiesSubject (deleteActivity ident svc) = activitiesSubject svc
     \<and> localStorage (deleteActivity ident svc) = Some (activitiesSubject svc)"
proof -
  from assms have none: "\<forall>a \<in> set (activitiesSubject svc). act_id a \<noteq> act_id activity"
    by (simp add: list_ex_iff)
  then have "findIndex (\<lambda>a. act_id a = act_id activity) (activitiesSubject svc) = - 1"
    by (simp add: findIndex_none)
  then have u: "updateActivity activity svc = svc"
    by (simp add: updateActivity_def)
  from none assms(2) have "filter (\<lambda>a. act_id a \<noteq> ident) (activitiesSubject svc) = activitiesSubject svc"
    by (simp add: filter_id_conv)
  then have "activitiesSubject (deleteActivity ident svc) = activitiesSubject svc"
    and "localStorage (deleteActivity ident svc) = Some (activitiesSubject svc)"
    by (simp_all add: deleteActivity_def saveToStorage_def next_value_def)
  with u show ?thesis by simp
qed

theorem C9_witness:
  "\<not> list_ex (\<lambda>a. act_id a = ''b'')
        (activitiesSubject \<lparr>activitiesSubject = [\<lparr>act_id = ''a'', title = ''t'', startTime = 32400000,
            endTime = 36000000, durationMinutes = 60, color = ''red''\<rparr>],
          localStorage = None, nextCalls = 0\<rparr>)
   \<and> updateActivity \<lparr>act_id = ''b'', title = ''u'', startTime = 0, endTime = 60000,
          durationMinutes = 1, color = ''blue''\<rparr>
        \<lparr>activitiesSubject = [\<lparr>act_id = ''a'', title = ''t'', startTime = 32400000,
            endTime = 36000000, durationMinutes = 60, color = ''red''\<rparr>],
          localStorage = None, nextCalls = 0\<rparr>
      = \<lparr>activitiesSubject = [\<lparr>act_id = ''a'', title = ''t'', startTime = 32400000,
            endTime = 36000000, durationMinutes = 60, color = ''red''\<rparr>],
          localStorage = None, nextCalls = 0\<rparr>
   \<and> activitiesSubject (deleteActivity ''b''
        \<lparr>activitiesSubject = [\<lparr>act_id = ''a'', title = ''t'', startTime = 32400000,
            endTime = 36000000, durationMinutes = 60, color = ''red''\<rparr>],
          localStorage = None, nextCalls = 0\<rparr>)
      = [\<lparr>act_id = ''a'', title = ''t'', startTime = 32400000,
            endTime = 36000000, durationMinutes = 60, color = ''red''\<rparr>]"
proof -
  let ?svc = "\<lparr>activitiesSubject = [\<lparr>act_id = ''a'', title = ''t'', startTime = 32400000,
            endTime = 36000000, durationMinutes = 60, color = ''red''\<rparr>],
          localStorage = None, nextCalls = 0\<rparr>"
  let ?u = "\<lparr>act_id = ''b'', title = ''u'', startTime = 0, endTime = 60000,
          durationMinutes = 1, color = ''blue''\<rparr>"
  have h: "\<not> list_ex (\<lambda>a. act_id a = ''b'') (activitiesSubject ?svc)" by simp
  have i: "act_id ?u = ''b''" by simp
  show ?thesis
    using h C9_unknown_id_noop [OF h i] by simp
qed

section \<open>Properties of the arc path\<close>

lemma clamped_sweep:
  "clampedEndAngle s e - s = 359.99 \<or> (Math_abs (e - s) < 360 \<and> clampedEndAngle s e = e)"
  by (simp add: clampedEndAngle_def)

lemma clamped_not_full: "Math_abs (clampedEndAngle s e - s) \<noteq> 360"
  by (simp add: clampedEndAngle_def Math_abs_def)

lemma describeArc_clamped:
  "Math_abs (e - s) \<ge> 360 \<Longrightarrow> describeArc cx cy r s e = describeArc cx cy r s (s + 359.99)"
  by (simp add: describeArc_def clampedEndAngle_def Math_abs_def)

lemma polar_eq_imp:
  assumes "r \<noteq> 0" and "polarToCartesian cx cy r a = polarToCartesian cx cy r b"
  shows "\<exists>n::int. a - b = 360 * of_int n"
proof -
  from assms have "sin ((a - 90) * pi / 180) = sin ((b - 90) * pi / 180)
      \<and> cos ((a - 90) * pi / 180) = cos ((b - 90) * pi / 180)"
    by (simp add: polarToCartesian_def Let_def)
  then obtain n :: int where "(a - 90) * pi / 180 = (b - 90) * pi / 180 + 2 * pi * of_int n"
    unfolding sin_cos_eq_iff by blast
  then have "((a - 90) - (b - 90)) * pi = (360 * of_int n) * pi"
    by (simp add: field_simps)
  then have "a - b = 360 * of_int n"
    by simp
  then show ?thesis ..
qed

lemma multiple_360_small:
  fixes d :: real and n :: int
  assumes "d = 360 * of_int n" "Math_abs d < 360"
  shows "d = 0"
proof -
  from assms have "\<bar>of_int n :: real\<bar> < 1"
    by (simp add: Math_abs_def split: if_splits)
  then have "n = 0" by linarith
  with assms show ?thesis by simp
qed

lemma not_multiple_35999:
  fixes n :: int
  shows "(359.99 :: real) \<noteq> 360 * of_int n"
proof
  assume a: "(359.99 :: real) = 360 * of_int n"
  then have "0 < (of_int n :: real)" "(of_int n :: real) < 1" by simp_all
  then have "0 < n" "n < 1" by linarith+
  then show False by simp
qed

lemma arc_points_distinct:
  assumes "r \<noteq> 0" "e \<noteq> s"
  shows "polarToCartesian cx cy r (clampedEndAngle s e) \<noteq> polarToCartesian cx cy r s"
proof
  assume "polarToCartesian cx cy r (clampedEndAngle s e) = polarToCartesian cx cy r s"
  with assms(1) obtain n :: int where n: "clampedEndAngle s e - s = 360 * of_int n"
    using polar_eq_imp by blast
  from clamped_sweep [of s e] show False
  proof
    assume "clampedEndAngle s e - s = 359.99"
    with n show False using not_multiple_35999 [of n] by simp
  next
    assume b: "Math_abs (e - s) < 360 \<and> clampedEndAngle s e = e"
    with n have "e - s = 360 * of_int n" by simp
    with b have "e - s = 0" using multiple_360_small by blast
    with assms(2) show False by simp
  qed
qed

lemma path_points:
  "pathMovePoint (describeArc cx cy r s e) =
     [Num (point_x (polarToCartesian cx cy r (clampedEndAngle s e))),
      Num (point_y (polarToCartesian cx cy r (clampedEndAngle s e)))]"
  "pathArcEndPoint (describeArc cx cy r s e) =
     [Num (point_x (polarToCartesian cx cy r s)), Num (point_y (polarToCartesian cx cy r s))]"
  by (simp_all add: describeArc_def Let_def pathMovePoint_def pathArcEndPoint_def)

text \<open>
  Claim C6, as amended. The sweep that \<open>describeArc\<close> draws is never 360 degrees in
  absolute value: when the requested one is 360 or more in absolute value, the end angle is
  replaced by the start angle plus 359.99, so the call with angles 0 and 360 gives the path
  for 0 and 359.99. The two end points of the arc are distinct whenever the radius is not
  zero and the two requested angles differ.
\<close>

theorem C6_describeArc_clamp:
  "Math_abs (clampedEndAngle s e - s) \<noteq> 360
   \<and> (Math_abs (e - s) \<ge> 360 \<longrightarrow>
        clampedEndAngle s e - s = 359.99
        \<and> describeArc cx cy r s e = describeArc cx cy r s (s + 359.99))
   \<and> describeArc cx cy r 0 360 = describeArc cx cy r 0 359.99
   \<and> (r \<noteq> 0 \<and> e \<noteq> s \<longrightarrow>
        pathMovePoint (describeArc cx cy r s e) \<noteq> pathArcEndPoint (describeArc cx cy r s e))"
proof (intro conjI impI)
  show "Math_abs (clampedEndAngle s e - s) \<noteq> 360" by (rule clamped_not_full)
next
  assume "360 \<le> Math_abs (e - s)"
  then show "clampedEndAngle s e - s = 359.99" by (simp add: clampedEndAngle_def)
next
  assume "360 \<le> Math_abs (e - s)"
  then show "describeArc cx cy r s e = describeArc cx cy r s (s + 359.99)"
    by (rule describeArc_clamped)
next
  show "describeArc cx cy r 0 360 = describeArc cx cy r 0 359.99"
    using describeArc_clamped [of 360 0 cx cy r] by (simp add: Math_abs_def)
next
  assume a: "r \<noteq> 0 \<and> e \<noteq> s"
  then have "polarToCartesian cx cy r (clampedEndAngle s e) \<noteq> polarToCartesian cx cy r s"
    using arc_points_distinct by blast
  then show "pathMovePoint (describeArc cx cy r s e) \<noteq> pathArcEndPoint (describeArc cx cy r s e)"
    unfolding path_points by (auto simp: Point.equality)
qed

theorem C6_witness:
  "(360::real) \<le> Math_abs (360 - 0) \<and> (200::real) \<noteq> 0 \<and> (360::real) \<noteq> 0
   \<and> clampedEndAngle 0 360 - 0 = 359.99
   \<and> describeArc 300 300 200 0 360 = describeArc 300 300 200 0 (0 + 359.99)
   \<and> pathMovePoint (describeArc 300 300 200 0 360) \<noteq> pathArcEndPoint (describeArc 300 300 200 0 360)"
proof -
  have h1: "(360::real) \<le> Math_abs (360 - 0)"
    by (simp add: Math_abs_def)
  have h2: "(200::real) \<noteq> 0 \<and> (360::real) \<noteq> 0"
    by simp
  note t = C6_describeArc_clamp [of 0 360 300 300 200]
  from t h1 have a: "clampedEndAngle 0 360 - 0 = 359.99
      \<and> describeArc 300 300 200 0 360 = describeArc 300 300 200 0 (0 + 359.99)"
    by blast
  from t h2 have b: "pathMovePoint (describeArc 300 300 200 0 360)
      \<noteq> pathArcEndPoint (describeArc 300 300 200 0 360)"
    by blast
  from h1 h2 a b show ?thesis by blast
qed

text \<open>
  The two end points do coincide when the requested angles are equal (a sweep of zero,
  where the guard does not apply) and when the radius is zero (also under the guard).
\<close>

theorem C6_counterexample:
  "pathMovePoint (describeArc 300 300 200 10 10) = pathArcEndPoint (describeArc 300 300 200 10 10)
   \<and> pathMovePoint (describeArc 300 300 0 0 360) = pathArcEndPoint (describeArc 300 300 0 0 360)"
  by (simp add: path_points clampedEndAngle_def Math_abs_def polarToCartesian_def)

section \<open>Properties of the overlap levels\<close>

lemma truncate_withLevel: "Activity.truncate (withLevel act lvl) = act"
  by (simp add: withLevel_def Activity.truncate_def)

lemma level_withLevel: "level (withLevel act lvl) = lvl"
  by (simp add: withLevel_def)

lemma areOverlapping_truncate: "areOverlapping a (Activity.truncate r) = areOverlapping a r"
  by (simp add: areOverlapping_def Activity.truncate_def)

lemma areOverlapping_withLevel: "areOverlapping a (withLevel b lvl) = areOverlapping a b"
  by (simp add: areOverlapping_def withLevel_def)

lemma areOverlapping_sym: "areOverlapping a b = areOverlapping b a"
  by (auto simp: areOverlapping_def)

lemma firstFreeLevel_spec:
  "lvl \<le> firstFreeLevel result act lvl
   \<and> \<not> levelTaken result act (firstFreeLevel result act lvl)
   \<and> (\<forall>k. lvl \<le> k \<and> k < firstFreeLevel result act lvl \<longrightarrow> levelTaken result act k)"
proof (induction result act lvl rule: firstFreeLevel.induct)
  case (1 result act lvl)
  show ?case
  proof (cases "levelTaken result act lvl")
    case True
    note ih = 1 [OF True]
    have eq: "firstFreeLevel result act lvl = firstFreeLevel result act (lvl + 1)"
      using True by (subst firstFreeLevel.simps) simp
    show ?thesis
      unfolding eq using ih True
      by (metis Suc_eq_plus1 Suc_leD Suc_leI le_neq_implies_less)
  next
    case False
    then have "firstFreeLevel result act lvl = lvl"
      by (subst firstFreeLevel.simps) simp
    with False show ?thesis by auto
  qed
qed

lemma firstFreeLevel_unique:
  assumes "\<not> levelTaken result act m" "\<forall>k<m. levelTaken result act k"
  shows "firstFreeLevel result act 0 = m"
proof -
  define f where "f = firstFreeLevel result act 0"
  note sp = firstFreeLevel_spec [of 0 result act, folded f_def]
  from sp have a: "\<not> levelTaken result act f" by simp
  from sp have b: "\<forall>k<f. levelTaken result act k" by simp
  from a assms(2) have "\<not> f < m" by blast
  moreover from b assms(1) have "\<not> m < f" by blast
  ultimately show ?thesis unfolding f_def by simp
qed

lemma foldl_place_snoc:
  "foldl placeActivity [] (xs @ [x]) =
     foldl placeActivity [] xs @ [withLevel x (firstFreeLevel (foldl placeActivity [] xs) x 0)]"
  by (simp add: placeActivity_def)

lemma placed_truncate: "map Activity.truncate (foldl placeActivity [] xs) = xs"
  by (induction xs rule: rev_induct) (simp_all add: placeActivity_def truncate_withLevel)

lemma placed_length: "length (foldl placeActivity [] xs) = length xs"
  using placed_truncate [of xs] by (metis length_map)

lemma placed_lowest:
  "i < length xs \<Longrightarrow>
     \<not> levelTaken (take i (foldl placeActivity [] xs)) (xs ! i) (level (foldl placeActivity [] xs ! i))
     \<and> (\<forall>k < level (foldl placeActivity [] xs ! i).
           levelTaken (take i (foldl placeActivity [] xs)) (xs ! i) k)"
proof (induction xs rule: rev_induct)
  case Nil
  then show ?case by simp
next
  case (snoc x xs)
  let ?R = "foldl placeActivity [] xs"
  have len: "length ?R = length xs" by (rule placed_length)
  show ?case
  proof (cases "i < length xs")
    case True
    with snoc.IH len show ?thesis
      unfolding foldl_place_snoc by (simp add: nth_append)
  next
    case False
    with snoc.prems have i: "i = length xs" by simp
    from firstFreeLevel_spec [of 0 ?R x] show ?thesis
      unfolding foldl_place_snoc using len i by (simp add: nth_append level_withLevel)
  qed
qed

lemma sorted_wrt_insort_key:
  assumes "\<And>a b. P a b \<Longrightarrow> P b a" "sorted_wrt P xs" "\<forall>y \<in> set xs. P x y"
  shows "sorted_wrt P (insort_key f x xs)"
  using assms(2,3)
proof (induction xs)
  case Nil
  then show ?case by simp
next
  case (Cons y ys)
  then show ?case
    using assms(1) by (auto simp: set_insort_key)
qed

lemma sorted_wrt_sort_key:
  assumes "\<And>a b. P a b \<Longrightarrow> P b a" "sorted_wrt P xs"
  shows "sorted_wrt P (sort_key f xs)"
  using assms(2)
proof (induction xs)
  case Nil
  then show ?case by simp
next
  case (Cons x xs)
  then show ?case
    using sorted_wrt_insort_key [of P "sort_key f xs" x f] assms(1) by simp
qed

lemma placed_all_overlapping:
  "sorted_wrt areOverlapping xs \<Longrightarrow> map level (foldl placeActivity [] xs) = [0..<length xs]"
proof (induction xs rule: rev_induct)
  case Nil
  then show ?case by simp
next
  case (snoc x xs)
  let ?R = "foldl placeActivity [] xs"
  from snoc.prems have sw: "sorted_wrt areOverlapping xs" and ov: "\<forall>y \<in> set xs. areOverlapping y x"
    by (simp_all add: sorted_wrt_append)
  from snoc.IH [OF sw] have lv: "map level ?R = [0..<length xs]" .
  have len: "length ?R = length xs" by (rule placed_length)
  have tr: "map Activity.truncate ?R = xs" by (rule placed_truncate)
  have ovR: "\<forall>r \<in> set ?R. areOverlapping x r"
  proof
    fix r assume "r \<in> set ?R"
    then have "Activity.truncate r \<in> set xs" using tr by (metis image_eqI set_map)
    with ov have "areOverlapping (Activity.truncate r) x" by blast
    then show "areOverlapping x r"
      using areOverlapping_sym areOverlapping_truncate by blast
  qed
  have taken: "levelTaken ?R x k \<longleftrightarrow> k < length xs" for k
  proof
    assume "levelTaken ?R x k"
    then obtain r where "r \<in> set ?R" "level r = k"
      by (auto simp: levelTaken_def list_ex_iff)
    then have "k \<in> set (map level ?R)" by auto
    then show "k < length xs" unfolding lv by simp
  next
    assume k: "k < length xs"
    then have "?R ! k \<in> set ?R" using len by simp
    moreover have "level (?R ! k) = k"
      using k len lv by (metis nth_map nth_upt add_0)
    ultimately show "levelTaken ?R x k"
      using ovR by (auto simp: levelTaken_def list_ex_iff)
  qed
  have "firstFreeLevel ?R x 0 = length xs"
    by (rule firstFreeLevel_unique) (simp_all add: taken)
  then show ?case
    unfolding foldl_place_snoc by (simp add: lv level_withLevel)
qed


lemma firstFreeLevel_empty: "firstFreeLevel [] act 0 = 0"
  by (rule firstFreeLevel_unique) (simp_all add: levelTaken_def)

lemma firstFreeLevel_one:
  "firstFreeLevel [withLevel p 0] q 0 = (if areOverlapping q p then 1 else 0)"
proof (cases "areOverlapping q p")
  case True
  have "firstFreeLevel [withLevel p 0] q 0 = 1"
    by (rule firstFreeLevel_unique)
      (simp_all add: levelTaken_def level_withLevel areOverlapping_withLevel True)
  with True show ?thesis by simp
next
  case False
  have "firstFreeLevel [withLevel p 0] q 0 = 0"
    by (rule firstFreeLevel_unique)
      (simp_all add: levelTaken_def level_withLevel areOverlapping_withLevel False)
  with False show ?thesis by simp
qed

lemma placed_pair:
  "foldl placeActivity [] [p, q] =
     [withLevel p 0, withLevel q (if areOverlapping q p then 1 else 0)]"
  by (simp add: placeActivity_def firstFreeLevel_empty firstFreeLevel_one)

lemma leveled_pair:
  assumes "getTime (startTime p) < getTime (startTime q)"
  shows "leveledActivities [p, q] = [withLevel p 0, withLevel q (if areOverlapping q p then 1 else 0)]"
    and "leveledActivities [q, p] = [withLevel p 0, withLevel q (if areOverlapping q p then 1 else 0)]"
proof -
  have "sort_key (\<lambda>a. getTime (startTime a)) [p, q] = [p, q]"
    and "sort_key (\<lambda>a. getTime (startTime a)) [q, p] = [p, q]"
    using assms by simp_all
  then show "leveledActivities [p, q] = [withLevel p 0, withLevel q (if areOverlapping q p then 1 else 0)]"
    and "leveledActivities [q, p] = [withLevel p 0, withLevel q (if areOverlapping q p then 1 else 0)]"
    unfolding leveledActivities_def Let_def by (simp_all only: placed_pair)
qed

lemma leveled_truncate:
  "map Activity.truncate (leveledActivities acts) = sort_key (\<lambda>a. getTime (startTime a)) acts"
  by (simp add: leveledActivities_def placed_truncate)

lemma leveled_sorted: "sorted (map (\<lambda>r. getTime (startTime r)) (leveledActivities acts))"
proof -
  have "map (\<lambda>r. getTime (startTime r)) (leveledActivities acts)
      = map (\<lambda>a. getTime (startTime a)) (map Activity.truncate (leveledActivities acts))"
    by (simp add: Activity.truncate_def)
  then show ?thesis
    unfolding leveled_truncate by (simp add: sorted_sort_key)
qed

lemma leveled_lowest:
  assumes "i < length acts"
  shows "\<not> levelTaken (take i (leveledActivities acts))
            (Activity.truncate (leveledActivities acts ! i)) (level (leveledActivities acts ! i))
     \<and> (\<forall>k < level (leveledActivities acts ! i).
           levelTaken (take i (leveledActivities acts))
             (Activity.truncate (leveledActivities acts ! i)) k)"
proof -
  define xs where "xs = sort_key (\<lambda>a. getTime (startTime a)) acts"
  have res: "leveledActivities acts = foldl placeActivity [] xs"
    by (simp add: leveledActivities_def xs_def)
  have i: "i < length xs" using assms by (simp add: xs_def)
  have "Activity.truncate (foldl placeActivity [] xs ! i) = xs ! i"
    using i placed_truncate [of xs] placed_length [of xs] by (metis nth_map)
  with placed_lowest [OF i] show ?thesis
    unfolding res by simp
qed

lemma leveled_three:
  assumes "areOverlapping x y" "areOverlapping x z" "areOverlapping y z"
  shows "map level (leveledActivities [x, y, z]) = [0, 1, 2]"
proof -
  have "sorted_wrt areOverlapping [x, y, z]"
    using assms by simp
  then have "sorted_wrt areOverlapping (sort_key (\<lambda>a. getTime (startTime a)) [x, y, z])"
    by (rule sorted_wrt_sort_key [rotated]) (simp add: areOverlapping_def)
  then have "map level (leveledActivities [x, y, z])
      = [0..<length (sort_key (\<lambda>a. getTime (startTime a)) [x, y, z])]"
    unfolding leveledActivities_def Let_def by (rule placed_all_overlapping)
  also have "\<dots> = [0, 1, 2]"
    by (simp add: upt_rec)
  finally show ?thesis .
qed


lemma setHours_less: "h1 * 60 + m1 < h2 * 60 + m2 \<Longrightarrow> setHours d h1 m1 0 0 < setHours d h2 m2 0 0"
  by (simp add: setHours_def)

text \<open>
  Claim C2. \<open>leveledActivities\<close> lists the activities in the order of a stable sort by
  start timestamp, ascending, and gives each one the lowest level at which no activity
  placed before it has that level and overlaps it (the strict test on the timestamps).
  Activities from 09:00 to 10:00 and from 09:30 to 10:30 get the levels 0 and 1, in either
  input order; three activities that overlap pairwise get the levels 0, 1 and 2; activities
  from 09:00 to 10:00 and from 10:00 to 11:00 both get level 0.
\<close>

theorem C2_leveledActivities:
  "map Activity.truncate (leveledActivities acts) = sort_key (\<lambda>a. getTime (startTime a)) acts
   \<and> sorted (map (\<lambda>r. getTime (startTime r)) (leveledActivities acts))
   \<and> (\<forall>i < length acts.
         \<not> levelTaken (take i (leveledActivities acts))
              (Activity.truncate (leveledActivities acts ! i)) (level (leveledActivities acts ! i))
         \<and> (\<forall>k < level (leveledActivities acts ! i).
               levelTaken (take i (leveledActivities acts))
                 (Activity.truncate (leveledActivities acts ! i)) k))
   \<and> (startTime p = setHours d 9 0 0 0 \<and> endTime p = setHours d 10 0 0 0
        \<and> startTime q = setHours d 9 30 0 0 \<and> endTime q = setHours d 10 30 0 0
        \<longrightarrow> leveledActivities [p, q] = [withLevel p 0, withLevel q 1]
          \<and> leveledActivities [q, p] = [withLevel p 0, withLevel q 1])
   \<and> (areOverlapping x y \<and> areOverlapping x z \<and> areOverlapping y z
        \<longrightarrow> map level (leveledActivities [x, y, z]) = [0, 1, 2])
   \<and> (startTime s = setHours d 9 0 0 0 \<and> endTime s = setHours d 10 0 0 0
        \<and> startTime t = setHours d 10 0 0 0 \<and> endTime t = setHours d 11 0 0 0
        \<longrightarrow> leveledActivities [s, t] = [withLevel s 0, withLevel t 0]
          \<and> leveledActivities [t, s] = [withLevel s 0, withLevel t 0])"
proof (intro conjI impI allI)
  show "map Activity.truncate (leveledActivities acts) = sort_key (\<lambda>a. getTime (startTime a)) acts"
    by (rule leveled_truncate)
  show "sorted (map (\<lambda>r. getTime (startTime r)) (leveledActivities acts))"
    by (rule leveled_sorted)
next
  fix i assume "i < length acts"
  from leveled_lowest [OF this]
  show "\<not> levelTaken (take i (leveledActivities acts))
              (Activity.truncate (leveledActivities acts ! i)) (level (leveledActivities acts ! i))"
    by (rule conjunct1)
next
  fix i k assume "i < length acts" and k: "k < level (leveledActivities acts ! i)"
  from leveled_lowest [OF this(1)] k
  show "levelTaken (take i (leveledActivities acts))
                 (Activity.truncate (leveledActivities acts ! i)) k"
    by simp
next
  assume h: "startTime p = setHours d 9 0 0 0 \<and> endTime p = setHours d 10 0 0 0
        \<and> startTime q = setHours d 9 30 0 0 \<and> endTime q = setHours d 10 30 0 0"
  then have lt: "getTime (startTime p) < getTime (startTime q)"
    by (simp add: getTime_def setHours_less)
  from h have ov: "areOverlapping q p"
    by (simp add: areOverlapping_def getTime_def setHours_less)
  from leveled_pair [OF lt] ov
  show "leveledActivities [p, q] = [withLevel p 0, withLevel q 1]"
    and "leveledActivities [q, p] = [withLevel p 0, withLevel q 1]"
    by simp_all
next
  assume "areOverlapping x y \<and> areOverlapping x z \<and> areOverlapping y z"
  then show "map level (leveledActivities [x, y, z]) = [0, 1, 2]"
    by (intro leveled_three) simp_all
next
  assume h: "startTime s = setHours d 9 0 0 0 \<and> endTime s = setHours d 10 0 0 0
        \<and> startTime t = setHours d 10 0 0 0 \<and> endTime t = setHours d 11 0 0 0"
  then have lt: "getTime (startTime s) < getTime (startTime t)"
    by (simp add: getTime_def setHours_less)
  from h have ov: "\<not> areOverlapping t s"
    by (simp add: areOverlapping_def getTime_def)
  from leveled_pair [OF lt] ov
  show "leveledActivities [s, t] = [withLevel s 0, withLevel t 0]"
    and "leveledActivities [t, s] = [withLevel s 0, withLevel t 0]"
    by simp_all
qed


theorem C2_witness:
  "(startTime (exampleActivity ''a'' 9 0 10 0) = setHours 0 9 0 0 0
      \<and> endTime (exampleActivity ''a'' 9 0 10 0) = setHours 0 10 0 0 0
      \<and> startTime (exampleActivity ''b'' 9 30 10 30) = setHours 0 9 30 0 0
      \<and> endTime (exampleActivity ''b'' 9 30 10 30) = setHours 0 10 30 0 0)
   \<and> (leveledActivities [exampleActivity ''a'' 9 0 10 0, exampleActivity ''b'' 9 30 10 30]
        = [withLevel (exampleActivity ''a'' 9 0 10 0) 0, withLevel (exampleActivity ''b'' 9 30 10 30) 1]
      \<and> leveledActivities [exampleActivity ''b'' 9 30 10 30, exampleActivity ''a'' 9 0 10 0]
        = [withLevel (exampleActivity ''a'' 9 0 10 0) 0, withLevel (exampleActivity ''b'' 9 30 10 30) 1])
   \<and> (areOverlapping (exampleActivity ''a'' 9 0 10 0) (exampleActivity ''b'' 9 30 10 30)
      \<and> areOverlapping (exampleActivity ''a'' 9 0 10 0) (exampleActivity ''e'' 9 45 10 15)
      \<and> areOverlapping (exampleActivity ''b'' 9 30 10 30) (exampleActivity ''e'' 9 45 10 15))
   \<and> map level (leveledActivities [exampleActivity ''a'' 9 0 10 0,
        exampleActivity ''b'' 9 30 10 30, exampleActivity ''e'' 9 45 10 15]) = [0, 1, 2]
   \<and> (startTime (exampleActivity ''a'' 9 0 10 0) = setHours 0 9 0 0 0
      \<and> endTime (exampleActivity ''a'' 9 0 10 0) = setHours 0 10 0 0 0
      \<and> startTime (exampleActivity ''c'' 10 0 11 0) = setHours 0 10 0 0 0
      \<and> endTime (exampleActivity ''c'' 10 0 11 0) = setHours 0 11 0 0 0)
   \<and> (leveledActivities [exampleActivity ''a'' 9 0 10 0, exampleActivity ''c'' 10 0 11 0]
        = [withLevel (exampleActivity ''a'' 9 0 10 0) 0, withLevel (exampleActivity ''c'' 10 0 11 0) 0]
      \<and> leveledActivities [exampleActivity ''c'' 10 0 11 0, exampleActivity ''a'' 9 0 10 0]
        = [withLevel (exampleActivity ''a'' 9 0 10 0) 0, withLevel (exampleActivity ''c'' 10 0 11 0) 0])
   \<and> 1 < length [exampleActivity ''a'' 9 0 10 0, exampleActivity ''b'' 9 30 10 30]
   \<and> \<not> levelTaken
        (take 1 (leveledActivities [exampleActivity ''a'' 9 0 10 0, exampleActivity ''b'' 9 30 10 30]))
        (Activity.truncate
          (leveledActivities [exampleActivity ''a'' 9 0 10 0, exampleActivity ''b'' 9 30 10 30] ! 1))
        (level (leveledActivities [exampleActivity ''a'' 9 0 10 0, exampleActivity ''b'' 9 30 10 30] ! 1))"
proof -
  let ?A = "exampleActivity ''a'' 9 0 10 0"
  let ?B = "exampleActivity ''b'' 9 30 10 30"
  let ?C = "exampleActivity ''c'' 10 0 11 0"
  let ?E = "exampleActivity ''e'' 9 45 10 15"
  note t = C2_leveledActivities [where acts = "[?A, ?B]" and p = ?A and q = ?B and d = 0
      and x = ?A and y = ?B and z = ?E and s = ?A and t = ?C]
  have h3: "1 < length [?A, ?B]" by simp
  have h4: "startTime ?A = setHours 0 9 0 0 0 \<and> endTime ?A = setHours 0 10 0 0 0
      \<and> startTime ?B = setHours 0 9 30 0 0 \<and> endTime ?B = setHours 0 10 30 0 0"
    by (simp add: exampleActivity_def)
  have h5: "areOverlapping ?A ?B \<and> areOverlapping ?A ?E \<and> areOverlapping ?B ?E"
    by (simp add: exampleActivity_def areOverlapping_def getTime_def setHours_def)
  have h6: "startTime ?A = setHours 0 9 0 0 0 \<and> endTime ?A = setHours 0 10 0 0 0
      \<and> startTime ?C = setHours 0 10 0 0 0 \<and> endTime ?C = setHours 0 11 0 0 0"
    by (simp add: exampleActivity_def)
  note r3 = t [THEN conjunct2, THEN conjunct2, THEN conjunct1, THEN spec, THEN mp, OF h3,
      THEN conjunct1]
  note r4 = t [THEN conjunct2, THEN conjunct2, THEN conjunct2, THEN conjunct1, THEN mp, OF h4]
  note r5 = t [THEN conjunct2, THEN conjunct2, THEN conjunct2, THEN conjunct2, THEN conjunct1,
      THEN mp, OF h5]
  note r6 = t [THEN conjunct2, THEN conjunct2, THEN conjunct2, THEN conjunct2, THEN conjunct2,
      THEN mp, OF h6]
  show ?thesis
    by (intro conjI h4 [THEN conjunct1] h4 [THEN conjunct2, THEN conjunct1]
        h4 [THEN conjunct2, THEN conjunct2, THEN conjunct1]
        h4 [THEN conjunct2, THEN conjunct2, THEN conjunct2]
        r4 [THEN conjunct1] r4 [THEN conjunct2]
        h5 [THEN conjunct1] h5 [THEN conjunct2, THEN conjunct1] h5 [THEN conjunct2, THEN conjunct2]
        r5
        h6 [THEN conjunct2, THEN conjunct2, THEN conjunct1]
        h6 [THEN conjunct2, THEN conjunct2, THEN conjunct2]
        r6 [THEN conjunct1] r6 [THEN conjunct2] h3 r3)
qed

section \<open>Properties of dragging\<close>

lemma getAngleFromEvent_range:
  "0 \<le> getAngleFromEvent center ev \<and> getAngleFromEvent center ev < 360"
proof (cases ev)
  case None
  then show ?thesis by (simp add: getAngleFromEvent_def)
next
  case (Some pt)
  obtain px py where pt: "pt = (px, py)" by (cases pt)
  define t where "t = Arg (Complex (px - center) (py - center))"
  have "- pi < t" "t \<le> pi"
    using Arg_bounded [of "Complex (px - center) (py - center)"] by (simp_all add: t_def)
  then have d: "- 180 < t * 180 / pi" "t * 180 / pi \<le> 180"
    by (simp_all add: field_simps)
  have "getAngleFromEvent center ev =
      (if t * 180 / pi + 90 < 0 then t * 180 / pi + 90 + 360 else t * 180 / pi + 90)"
    by (simp add: getAngleFromEvent_def Some pt Let_def t_def)
  with d show ?thesis by auto
qed

lemma day_offset:
  fixes D r :: int
  assumes "0 \<le> r" "r < msPerDay"
  shows "Day (D * msPerDay + r) = D"
  unfolding Day_def using assms by (intro div_decomp) auto

lemma angleToTime_quarter:
  fixes k :: int
  assumes "0 \<le> k" "k < 96"
  shows "angleToTime (of_int k * 3.75) d = Day d * msPerDay + k * 900000"
proof -
  define a :: real where "a = of_int k * 3.75"
  have a: "0 \<le> a" "a < 360"
    using assms by (simp_all add: a_def)
  have rem: "js_rem (a + 360) 360 = a"
    using a by (rule js_rem_360)
  have split: "k = 4 * (k div 4) + k mod 4" by simp
  have tot: "a / 15 = of_int k / 4"
    by (simp add: a_def)
  have "\<lfloor>(of_int k :: real) / of_int 4\<rfloor> = k div 4"
    by (rule floor_divide_of_int_eq)
  then have fl: "Math_floor (of_int k / 4) = k div 4"
    by (simp add: Math_floor_def)
  have "(of_int k :: real) = 4 * of_int (k div 4) + of_int (k mod 4)"
    by (metis split of_int_add of_int_mult of_int_numeral)
  then have "((of_int k :: real) / 4 - of_int (k div 4)) * 60 = 15 * of_int (k mod 4)"
    by (simp add: field_simps)
  then have "((of_int k :: real) / 4 - of_int (k div 4)) * 60 = of_int (15 * (k mod 4))"
    by simp
  then have rd: "Math_round (((of_int k :: real) / 4 - of_int (k div 4)) * 60) = 15 * (k mod 4)"
    by (simp only: Math_round_of_int)
  have "angleToTime a d = setHours d (k div 4) (15 * (k mod 4)) 0 0"
    unfolding angleToTime_def Let_def rem tot fl rd ..
  also have "\<dots> = Day d * msPerDay + k * 900000"
  proof -
    define q where "q = k div 4"
    define r where "r = k mod 4"
    have k: "k = 4 * q + r" by (simp add: q_def r_def)
    have "q * 3600000 + 15 * r * 60000 = k * 900000"
      unfolding k by simp
    then show ?thesis
      unfolding q_def r_def by (simp add: setHours_def)
  qed
  finally show ?thesis unfolding a_def .
qed

lemma snap_range:
  assumes "0 \<le> angle" "angle < 360"
  shows "\<exists>K::int. 0 \<le> K \<and> K \<le> 96 \<and> snapAngleTo15Min angle = of_int K * 3.75"
proof -
  define K where "K = Math_round (angle / 3.75)"
  have "0 \<le> K"
    unfolding K_def Math_round_def using assms by simp
  moreover have "K \<le> 96"
    unfolding K_def Math_round_def using assms by (simp add: floor_le_iff)
  moreover have "snapAngleTo15Min angle = of_int K * 3.75"
    by (simp add: snapAngleTo15Min_def K_def)
  ultimately show ?thesis by blast
qed

lemma angleToTime_snap:
  assumes "0 \<le> angle" "angle < 360"
  shows "\<exists>k::int. 0 \<le> k \<and> k < 96
      \<and> angleToTime (snapAngleTo15Min angle) d = Day d * msPerDay + k * 900000"
proof -
  from snap_range [OF assms] obtain K :: int
    where K: "0 \<le> K" "K \<le> 96" "snapAngleTo15Min angle = of_int K * 3.75" by blast
  show ?thesis
  proof (cases "K = 96")
    case True
    with K(3) have "snapAngleTo15Min angle = 360" by simp
    then have "angleToTime (snapAngleTo15Min angle) d = Day d * msPerDay + 0 * 900000"
      by (simp add: angleToTime_360)
    then show ?thesis by (intro exI [of _ 0]) simp
  next
    case False
    with K have "K < 96" by simp
    with K(1) have "angleToTime (of_int K * 3.75) d = Day d * msPerDay + K * 900000"
      by (rule angleToTime_quarter)
    then have "angleToTime (snapAngleTo15Min angle) d = Day d * msPerDay + K * 900000"
      unfolding K(3) .
    with K(1) \<open>K < 96\<close> show ?thesis by (intro exI [of _ K] conjI)
  qed
qed

lemma angleToTime_snap_day:
  assumes "0 \<le> angle" "angle < 360"
  shows "Day (angleToTime (snapAngleTo15Min angle) d) = Day d"
proof -
  from angleToTime_snap [OF assms, of d] obtain k :: int
    where k: "0 \<le> k" "k < 96"
      "angleToTime (snapAngleTo15Min angle) d = Day d * msPerDay + k * 900000" by blast
  have "Day (Day d * msPerDay + k * 900000) = Day d"
    using k(1,2) by (intro day_offset) (simp_all add: msPerDay_def)
  with k(3) show ?thesis by simp
qed

lemma wrappedDiff_range:
  assumes "Day s = Day e"
  shows "0 \<le> wrappedDiff s e \<and> wrappedDiff s e < 1440"
proof -
  have s: "s = Day s * 86400000 + s mod 86400000" and e: "e = Day e * 86400000 + e mod 86400000"
    by (simp_all add: Day_def msPerDay_def)
  have "0 \<le> s mod 86400000" "s mod 86400000 < 86400000"
    "0 \<le> e mod 86400000" "e mod 86400000 < 86400000"
    by simp_all
  with s e assms have "- 86400000 < e - s" "e - s < 86400000"
    by linarith+
  then have "- 86400000 < (of_int (e - s) :: real)" "(of_int (e - s) :: real) < 86400000"
    by linarith+
  then show ?thesis
    unfolding wrappedDiff_def Let_def getTime_def by (simp add: field_simps)
qed

lemma find_update_first:
  "find P xs = Some a \<Longrightarrow> P u \<Longrightarrow> find P (xs[nat (findIndex P xs) := u]) = Some u"
proof (induction xs)
  case Nil
  then show ?case by simp
next
  case (Cons b bs)
  show ?case
  proof (cases "P b")
    case True
    with Cons.prems show ?thesis by simp
  next
    case False
    with Cons.prems have f: "find P bs = Some a" by simp
    from findIndex_find [OF f] have i: "0 \<le> findIndex P bs" by simp
    then have "findIndex P bs \<noteq> - 1" by simp
    with False i Cons.IH [OF f Cons.prems(2)] show ?thesis
      by (simp add: Let_def nat_add_distrib)
  qed
qed

lemma updateActivity_found:
  assumes "find (\<lambda>a. act_id a = act_id u) (activitiesSubject svc) = Some a"
  shows "updateActivity u svc =
     svc\<lparr>activitiesSubject :=
            (activitiesSubject svc)[nat (findIndex (\<lambda>a. act_id a = act_id u) (activitiesSubject svc)) := u],
         localStorage :=
           Some ((activitiesSubject svc)[nat (findIndex (\<lambda>a. act_id a = act_id u) (activitiesSubject svc)) := u]),
         nextCalls := nextCalls svc + 1\<rparr>"
proof -
  from findIndex_find [OF assms]
  have "findIndex (\<lambda>a. act_id a = act_id u) (activitiesSubject svc) \<noteq> - 1" by simp
  then show ?thesis
    by (simp add: updateActivity_def Let_def saveToStorage_def next_value_def)
qed

lemma updateActivity_found_calls:
  assumes "find (\<lambda>a. act_id a = act_id u) (activitiesSubject svc) = Some a"
  shows "nextCalls (updateActivity u svc) = nextCalls svc + 1"
  by (simp add: updateActivity_found [OF assms])

lemma updateActivity_found_find:
  assumes "find (\<lambda>a. act_id a = act_id u) (activitiesSubject svc) = Some a"
  shows "find (\<lambda>a. act_id a = act_id u) (activitiesSubject (updateActivity u svc)) = Some u"
  using find_update_first [OF assms, of u] by (simp add: updateActivity_found [OF assms])

lemma act_id_updatedActivity: "act_id (updatedActivity c activity snapped) = act_id activity"
  by (auto simp: updatedActivity_def Let_def)

lemma updatedActivity_hasMoved:
  "updatedActivity (c\<lparr>hasMoved := b\<rparr>) activity snapped = updatedActivity c activity snapped"
  by (auto simp: updatedActivity_def Let_def)

lemma onMove_blocked:
  assumes "dragMode c = Move" "\<not> hasMoved c" "Math_abs (angle - dragStartAngle c) \<le> 2"
  shows "onMove angle c = c"
  using assms by (simp add: onMove_def Let_def)

lemma onMove_active:
  assumes "isDragging c" "draggedActivityId c = Some ident" "ident \<noteq> []"
    and "find (\<lambda>a. act_id a = ident) (activities c) = Some activity"
    and "hasMoved c \<or> Math_abs (angle - dragStartAngle c) > 2 \<or> dragMode c \<noteq> Move"
  shows "service (onMove angle c) =
     (if hasChanged (updatedActivity c activity (snapAngleTo15Min angle)) activity
      then updateActivity (updatedActivity c activity (snapAngleTo15Min angle)) (service c)
      else service c)"
proof -
  have t: "truthy_id (draggedActivityId c)"
    using assms(2,3) by (simp add: truthy_id_def)
  show ?thesis
  proof (cases "\<not> hasMoved c \<and> Math_abs (angle - dragStartAngle c) > 2")
    case True
    then show ?thesis
      using assms(1,2,4) t
      by (simp add: onMove_def Let_def activities_def updatedActivity_hasMoved)
  next
    case False
    with assms(5) have "hasMoved c \<or> dragMode c \<noteq> Move" by blast
    with False show ?thesis
      using assms(1,2,4) t
      by (auto simp: onMove_def Let_def activities_def)
  qed
qed

lemma onMouseMove_active:
  assumes "isDragging c" "draggedActivityId c = Some ident" "ident \<noteq> []"
    and "find (\<lambda>a. act_id a = ident) (activities c) = Some activity"
  shows "nextCalls (service (onMouseMove angle c)) = nextCalls (service c) + 1"
proof -
  have t: "truthy_id (draggedActivityId c)"
    using assms(2,3) by (simp add: truthy_id_def)
  from find_Some_iff [THEN iffD1, OF assms(4)] have id: "act_id activity = ident" by blast
  define u where "u = (let moved = (if dragMode c = End
       then activity\<lparr>endTime := angleToTime (snapAngleTo15Min angle) (startTime activity)\<rparr>
       else activity\<lparr>startTime := angleToTime (snapAngleTo15Min angle) (endTime activity)\<rparr>)
     in moved\<lparr>durationMinutes := wrappedDiff (startTime moved) (endTime moved)\<rparr>)"
  have uid: "act_id u = ident" by (simp add: u_def Let_def id)
  have s: "service (onMouseMove angle c) = updateActivity u (service c)"
    using assms(1,2,4) t by (simp add: onMouseMove_def Let_def u_def)
  have "find (\<lambda>a. act_id a = act_id u) (activitiesSubject (service c)) = Some activity"
    using assms(4) by (simp add: uid activities_def)
  then show ?thesis unfolding s by (rule updateActivity_found_calls)
qed

lemma find_id: "find (\<lambda>a. act_id a = ident) xs = Some a \<Longrightarrow> act_id a = ident"
  by (induction xs) (auto split: if_splits)

lemma onMove_push:
  assumes "isDragging c" "draggedActivityId c = Some ident" "ident \<noteq> []"
    and "find (\<lambda>a. act_id a = ident) (activities c) = Some activity"
    and "hasMoved c \<or> Math_abs (angle - dragStartAngle c) > 2 \<or> dragMode c \<noteq> Move"
  shows "hasChanged (updatedActivity c activity (snapAngleTo15Min angle)) activity \<Longrightarrow>
           service (onMove angle c)
             = updateActivity (updatedActivity c activity (snapAngleTo15Min angle)) (service c)
           \<and> nextCalls (service (onMove angle c)) = nextCalls (service c) + 1"
    and "\<not> hasChanged (updatedActivity c activity (snapAngleTo15Min angle)) activity \<Longrightarrow>
           service (onMove angle c) = service c"
proof -
  let ?u = "updatedActivity c activity (snapAngleTo15Min angle)"
  note s = onMove_active [OF assms]
  have "act_id ?u = ident"
    using find_id [OF assms(4)] by (simp add: act_id_updatedActivity)
  then have f: "find (\<lambda>a. act_id a = act_id ?u) (activitiesSubject (service c)) = Some activity"
    using assms(4) by (simp add: activities_def)
  show "hasChanged ?u activity \<Longrightarrow>
      service (onMove angle c) = updateActivity ?u (service c)
      \<and> nextCalls (service (onMove angle c)) = nextCalls (service c) + 1"
    using s updateActivity_found_calls [OF f] by simp
  show "\<not> hasChanged ?u activity \<Longrightarrow> service (onMove angle c) = service c"
    using s by simp
qed

text \<open>
  Claim C8, as amended. In the component with the move mode, a pointer-move during a drag
  of a stored activity pushes an update (one more notification of the store) exactly when
  the recomputed start or end timestamp differs from the current one; otherwise the store
  is unchanged, as it is while a move-mode drag has not passed its threshold. In the
  component without the move mode, every pointer-move during a drag of a stored activity
  pushes an update.
\<close>

theorem C8_push_iff_changed:
  assumes "isDragging c" "draggedActivityId c = Some ident" "ident \<noteq> []"
    and "find (\<lambda>a. act_id a = ident) (activities c) = Some activity"
  shows "((hasMoved c \<or> Math_abs (angle - dragStartAngle c) > 2 \<or> dragMode c \<noteq> Move) \<longrightarrow>
          (nextCalls (service (onMove angle c)) = nextCalls (service c) + 1
             \<longleftrightarrow> hasChanged (updatedActivity c activity (snapAngleTo15Min angle)) activity)
          \<and> (hasChanged (updatedActivity c activity (snapAngleTo15Min angle)) activity \<longrightarrow>
               service (onMove angle c)
                 = updateActivity (updatedActivity c activity (snapAngleTo15Min angle)) (service c))
          \<and> (\<not> hasChanged (updatedActivity c activity (snapAngleTo15Min angle)) activity \<longrightarrow>
               service (onMove angle c) = service c))
     \<and> (\<not> (hasMoved c \<or> Math_abs (angle - dragStartAngle c) > 2 \<or> dragMode c \<noteq> Move) \<longrightarrow>
          onMove angle c = c)
     \<and> nextCalls (service (onMouseMove angle c)) = nextCalls (service c) + 1"
proof (intro conjI impI)
  assume p: "hasMoved c \<or> Math_abs (angle - dragStartAngle c) > 2 \<or> dragMode c \<noteq> Move"
  note push = onMove_push [OF assms p]
  show "nextCalls (service (onMove angle c)) = nextCalls (service c) + 1
      \<longleftrightarrow> hasChanged (updatedActivity c activity (snapAngleTo15Min angle)) activity"
  proof (cases "hasChanged (updatedActivity c activity (snapAngleTo15Min angle)) activity")
    case True
    with push(1) [OF True, THEN conjunct2] show ?thesis by simp
  next
    case False
    with push(2) [OF False] show ?thesis by simp
  qed
  show "service (onMove angle c)
      = updateActivity (updatedActivity c activity (snapAngleTo15Min angle)) (service c)"
    if "hasChanged (updatedActivity c activity (snapAngleTo15Min angle)) activity"
    using push(1) [OF that] by (rule conjunct1)
  show "service (onMove angle c) = service c"
    if "\<not> hasChanged (updatedActivity c activity (snapAngleTo15Min angle)) activity"
    using push(2) [OF that] .
next
  assume "\<not> (hasMoved c \<or> Math_abs (angle - dragStartAngle c) > 2 \<or> dragMode c \<noteq> Move)"
  then show "onMove angle c = c"
    by (intro onMove_blocked) simp_all
next
  show "nextCalls (service (onMouseMove angle c)) = nextCalls (service c) + 1"
    using assms by (rule onMouseMove_active)
qed


lemma snap_quarter: "snapAngleTo15Min (of_int k * 15 / 4) = of_int k * 15 / 4"
  using snap_of_multiple [of k] by simp

lemma angleToTime_snap_quarter:
  fixes k :: int
  assumes "0 \<le> k" "k < 96"
  shows "angleToTime (snapAngleTo15Min (of_int k * 15 / 4)) d = Day d * msPerDay + k * 900000"
  unfolding snap_quarter using angleToTime_quarter [OF assms, of d] by simp

lemma exampleActivity_fields:
  "act_id (exampleActivity n h1 m1 h2 m2) = n"
  "startTime (exampleActivity n h1 m1 h2 m2) = h1 * 3600000 + m1 * 60000"
  "endTime (exampleActivity n h1 m1 h2 m2) = h2 * 3600000 + m2 * 60000"
  by (simp_all add: exampleActivity_def setHours_def Day_def)

lemma example_drag_state:
  "isDragging (handleMouseDown p n mode (exampleComponent [exampleActivity n h1 m1 h2 m2]))"
  "draggedActivityId (handleMouseDown p n mode (exampleComponent [exampleActivity n h1 m1 h2 m2])) = Some n"
  "dragMode (handleMouseDown p n mode (exampleComponent [exampleActivity n h1 m1 h2 m2])) = mode"
  "dragStartAngle (handleMouseDown p n mode (exampleComponent [exampleActivity n h1 m1 h2 m2])) = p"
  "hasMoved (handleMouseDown p n mode (exampleComponent [exampleActivity n h1 m1 h2 m2])) = False"
  "service (handleMouseDown p n mode (exampleComponent [exampleActivity n h1 m1 h2 m2]))
     = service (exampleComponent [exampleActivity n h1 m1 h2 m2])"
  "find (\<lambda>a. act_id a = n)
     (activities (handleMouseDown p n mode (exampleComponent [exampleActivity n h1 m1 h2 m2])))
     = Some (exampleActivity n h1 m1 h2 m2)"
  by (simp_all add: handleMouseDown_def exampleComponent_def activities_def
      exampleActivity_fields Let_def)

theorem C8_witness:
  "isDragging (handleMouseDown 150 ''a'' End (exampleComponent [exampleActivity ''a'' 9 0 10 0]))
   \<and> draggedActivityId (handleMouseDown 150 ''a'' End
        (exampleComponent [exampleActivity ''a'' 9 0 10 0])) = Some ''a''
   \<and> ''a'' \<noteq> []
   \<and> find (\<lambda>a. act_id a = ''a'')
        (activities (handleMouseDown 150 ''a'' End
          (exampleComponent [exampleActivity ''a'' 9 0 10 0])))
        = Some (exampleActivity ''a'' 9 0 10 0)
   \<and> dragMode (handleMouseDown 150 ''a'' End
        (exampleComponent [exampleActivity ''a'' 9 0 10 0])) \<noteq> Move
   \<and> (nextCalls (service (onMove 165 (handleMouseDown 150 ''a'' End
          (exampleComponent [exampleActivity ''a'' 9 0 10 0]))))
        = nextCalls (service (handleMouseDown 150 ''a'' End
          (exampleComponent [exampleActivity ''a'' 9 0 10 0]))) + 1
      \<longleftrightarrow> hasChanged
          (updatedActivity (handleMouseDown 150 ''a'' End
             (exampleComponent [exampleActivity ''a'' 9 0 10 0]))
            (exampleActivity ''a'' 9 0 10 0) (snapAngleTo15Min 165))
          (exampleActivity ''a'' 9 0 10 0))
   \<and> nextCalls (service (onMouseMove 165 (handleMouseDown 150 ''a'' End
          (exampleComponent [exampleActivity ''a'' 9 0 10 0]))))
        = nextCalls (service (handleMouseDown 150 ''a'' End
          (exampleComponent [exampleActivity ''a'' 9 0 10 0]))) + 1"
proof -
  let ?c = "handleMouseDown 150 ''a'' End (exampleComponent [exampleActivity ''a'' 9 0 10 0])"
  have h1: "isDragging ?c" by (rule example_drag_state)
  have h2: "draggedActivityId ?c = Some ''a''" by (rule example_drag_state)
  have h3: "''a'' \<noteq> []" by simp
  have h4: "find (\<lambda>a. act_id a = ''a'') (activities ?c) = Some (exampleActivity ''a'' 9 0 10 0)"
    by (rule example_drag_state)
  have h5: "dragMode ?c \<noteq> Move" by (simp add: example_drag_state)
  then have h5': "hasMoved ?c \<or> Math_abs (165 - dragStartAngle ?c) > 2 \<or> dragMode ?c \<noteq> Move"
    by blast
  note t = C8_push_iff_changed [OF h1 h2 h3 h4, of 165]
  note r1 = t [THEN conjunct1, THEN mp, OF h5', THEN conjunct1]
  note r2 = t [THEN conjunct2, THEN conjunct2]
  show ?thesis
    by (intro conjI h1 h2 h3 h4 h5 r1 r2)
qed

text \<open>
  In the component without the move mode, a pointer-move that recomputes the end time to
  its current value still pushes an update: the end handle of an activity from 09:00 to
  10:00 is dragged to 150 degrees, which is 10:00.
\<close>

theorem C8_counterexample:
  "angleToTime (snapAngleTo15Min 150) (startTime (exampleActivity ''a'' 9 0 10 0))
     = endTime (exampleActivity ''a'' 9 0 10 0)
   \<and> nextCalls (service (onMouseMove 150
        ((exampleComponent [exampleActivity ''a'' 9 0 10 0])
           \<lparr>isDragging := True, draggedActivityId := Some ''a'', dragMode := End\<rparr>)))
     = nextCalls (service ((exampleComponent [exampleActivity ''a'' 9 0 10 0])
           \<lparr>isDragging := True, draggedActivityId := Some ''a'', dragMode := End\<rparr>)) + 1
   \<and> service (onMouseMove 150
        ((exampleComponent [exampleActivity ''a'' 9 0 10 0])
           \<lparr>isDragging := True, draggedActivityId := Some ''a'', dragMode := End\<rparr>))
     \<noteq> service ((exampleComponent [exampleActivity ''a'' 9 0 10 0])
           \<lparr>isDragging := True, draggedActivityId := Some ''a'', dragMode := End\<rparr>)"
proof -
  let ?A = "exampleActivity ''a'' 9 0 10 0"
  let ?c = "(exampleComponent [?A])
      \<lparr>isDragging := True, draggedActivityId := Some ''a'', dragMode := End\<rparr>"
  have "angleToTime (snapAngleTo15Min (of_int 40 * 15 / 4)) (startTime ?A)
      = Day (startTime ?A) * msPerDay + 40 * 900000"
    by (rule angleToTime_snap_quarter) simp_all
  then have a: "angleToTime (snapAngleTo15Min 150) (startTime ?A) = endTime ?A"
    by (simp add: exampleActivity_fields Day_def msPerDay_def)
  have b: "nextCalls (service (onMouseMove 150 ?c)) = nextCalls (service ?c) + 1"
    by (rule onMouseMove_active [where ident = "''a''" and activity = ?A])
      (simp_all add: exampleComponent_def activities_def exampleActivity_fields)
  then have c: "service (onMouseMove 150 ?c) \<noteq> service ?c"
    by (metis Suc_eq_plus1 n_not_Suc_n)
  from a b c show ?thesis by (intro conjI)
qed

lemma snap_multiple: "\<exists>K::int. snapAngleTo15Min x = of_int K * 15 / 4"
  by (rule exI [of _ "Math_round (x / 3.75)"]) (simp add: snapAngleTo15Min_def)

lemma move_offset:
  "\<exists>n::int. (snapAngleTo15Min a - snapAngleTo15Min p) / 15 * 60 * 60 * 1000 = of_int n
     \<and> (n = 0 \<longleftrightarrow> snapAngleTo15Min a = snapAngleTo15Min p)"
proof -
  obtain Ka :: int where a: "snapAngleTo15Min a = of_int Ka * 15 / 4"
    using snap_multiple by blast
  obtain Kp :: int where p: "snapAngleTo15Min p = of_int Kp * 15 / 4"
    using snap_multiple by blast
  have "(snapAngleTo15Min a - snapAngleTo15Min p) / 15 * 60 * 60 * 1000
      = of_int ((Ka - Kp) * 900000)"
    unfolding a p by simp
  moreover have "(Ka - Kp) * 900000 = 0 \<longleftrightarrow> snapAngleTo15Min a = snapAngleTo15Min p"
    unfolding a p by simp
  ultimately show ?thesis by blast
qed

lemma Date_of_number_add: "Date_of_number (of_int s + of_int n) = s + n"
  using Date_of_number_of_int [of "s + n"] by simp

lemma updatedActivity_move:
  assumes "dragMode c = Move" "initialStartTime c = Some s0" "initialEndTime c = Some e0"
    and "(snapped - snapAngleTo15Min (dragStartAngle c)) / 15 * 60 * 60 * 1000 = of_int n"
  shows "updatedActivity c activity snapped =
     activity\<lparr>startTime := s0 + n, endTime := e0 + n,
       durationMinutes := or_else (initialDuration c) (durationMinutes activity)\<rparr>"
proof -
  let ?T = "(snapped - snapAngleTo15Min (dragStartAngle c)) / 15 * 60 * 60 * 1000"
  have "updatedActivity c activity snapped =
     activity\<lparr>startTime := Date_of_number (of_int (getTime s0) + ?T),
       endTime := Date_of_number (of_int (getTime e0) + ?T),
       durationMinutes := or_else (initialDuration c) (durationMinutes activity)\<rparr>"
    unfolding updatedActivity_def Let_def assms(1-3)
    by (simp only: option.sel option.simps simp_thms if_True)
  then show ?thesis
    unfolding assms(4) getTime_def Date_of_number_add .
qed

lemma updatedActivity_end:
  assumes "dragMode c = End"
  shows "updatedActivity c activity snapped =
     activity\<lparr>endTime := angleToTime snapped (startTime activity),
       durationMinutes := wrappedDiff (startTime activity) (angleToTime snapped (startTime activity))\<rparr>"
  using assms by (simp add: updatedActivity_def Let_def)

lemma updatedActivity_start:
  assumes "dragMode c = Start"
  shows "updatedActivity c activity snapped =
     activity\<lparr>startTime := angleToTime snapped (endTime activity),
       durationMinutes := wrappedDiff (angleToTime snapped (endTime activity)) (endTime activity)\<rparr>"
  using assms by (simp add: updatedActivity_def Let_def)

lemma updatedActivity_move_no_snapshot:
  assumes "dragMode c = Move" "initialStartTime c = None \<or> initialEndTime c = None"
  shows "updatedActivity c activity snapped = activity"
  using assms by (auto simp: updatedActivity_def Let_def)


lemma onMove_changed:
  assumes "isDragging c" "draggedActivityId c = Some ident" "ident \<noteq> []"
    and "find (\<lambda>a. act_id a = ident) (activities c) = Some activity"
    and "service (onMove angle c) \<noteq> service c"
  shows "hasChanged (updatedActivity c activity (snapAngleTo15Min angle)) activity"
    and "find (\<lambda>a. act_id a = ident) (activities (onMove angle c))
      = Some (updatedActivity c activity (snapAngleTo15Min angle))"
proof -
  let ?u = "updatedActivity c activity (snapAngleTo15Min angle)"
  have pass: "hasMoved c \<or> Math_abs (angle - dragStartAngle c) > 2 \<or> dragMode c \<noteq> Move"
  proof (rule ccontr)
    assume "\<not> ?thesis"
    then have "onMove angle c = c" by (intro onMove_blocked) simp_all
    with assms(5) show False by simp
  qed
  note push = onMove_push [OF assms(1-4) pass]
  show ch: "hasChanged ?u activity"
    using push(2) assms(5) by blast
  have uid: "act_id ?u = ident"
    using find_id [OF assms(4)] by (simp add: act_id_updatedActivity)
  then have f: "find (\<lambda>a. act_id a = act_id ?u) (activitiesSubject (service c)) = Some activity"
    using assms(4) by (simp add: activities_def)
  have "service (onMove angle c) = updateActivity ?u (service c)"
    using push(1) [OF ch] by (rule conjunct1)
  with updateActivity_found_find [OF f]
  show "find (\<lambda>a. act_id a = ident) (activities (onMove angle c)) = Some ?u"
    by (simp add: activities_def uid)
qed

lemma wrappedDiff_formula:
  "wrappedDiff s e =
     (let diff = of_int (getTime e - getTime s) / 60000 in if diff < 0 then diff + 1440 else diff)"
  by (simp add: wrappedDiff_def Let_def)

lemma day_setHours:
  assumes "0 \<le> h" "h < 24" "0 \<le> m" "m < 60"
  shows "Day (setHours d h m 0 0) = Day d"
  using time_fields(5) [OF assms, of "Day d"] by (simp add: setHours_def)


lemma drag_handle_duration:
  fixes angle :: real and activity :: Activity
  assumes "dragMode c \<noteq> Move"
  defines "u \<equiv> updatedActivity c activity (snapAngleTo15Min angle)"
  shows "durationMinutes u = wrappedDiff (startTime u) (endTime u)"
    and "0 \<le> angle \<Longrightarrow> angle < 360 \<Longrightarrow> Day (startTime u) = Day (endTime u)"
proof -
  from assms(1) consider "dragMode c = End" | "dragMode c = Start"
    by (cases "dragMode c") simp_all
  then show "durationMinutes u = wrappedDiff (startTime u) (endTime u)"
  proof cases
    case 1
    then show ?thesis unfolding u_def by (simp add: updatedActivity_end)
  next
    case 2
    then show ?thesis unfolding u_def by (simp add: updatedActivity_start)
  qed
  assume a: "0 \<le> angle" "angle < 360"
  from assms(1) consider "dragMode c = End" | "dragMode c = Start"
    by (cases "dragMode c") simp_all
  then show "Day (startTime u) = Day (endTime u)"
  proof cases
    case 1
    then show ?thesis
      unfolding u_def by (simp add: updatedActivity_end angleToTime_snap_day [OF a])
  next
    case 2
    then show ?thesis
      unfolding u_def by (simp add: updatedActivity_start angleToTime_snap_day [OF a])
  qed
qed

lemma drag_move_duration:
  fixes angle :: real and activity :: Activity
  assumes "dragMode c = Move"
    and "hasChanged (updatedActivity c activity (snapAngleTo15Min angle)) activity"
  defines "u \<equiv> updatedActivity c activity (snapAngleTo15Min angle)"
  shows "\<exists>s0 e0. initialStartTime c = Some s0 \<and> initialEndTime c = Some e0
      \<and> getTime (endTime u) - getTime (startTime u) = getTime e0 - getTime s0"
    and "durationMinutes u = or_else (initialDuration c) (durationMinutes activity)"
proof -
  have "initialStartTime c \<noteq> None \<and> initialEndTime c \<noteq> None"
  proof (rule ccontr)
    assume "\<not> ?thesis"
    then have "initialStartTime c = None \<or> initialEndTime c = None" by blast
    from updatedActivity_move_no_snapshot [OF assms(1) this] assms(2)
    show False by (simp add: hasChanged_def)
  qed
  then obtain s0 e0 where s: "initialStartTime c = Some s0" "initialEndTime c = Some e0"
    by blast
  obtain n :: int where
    n: "(snapAngleTo15Min angle - snapAngleTo15Min (dragStartAngle c)) / 15 * 60 * 60 * 1000 = of_int n"
    using move_offset [of angle "dragStartAngle c"] by blast
  note eq = updatedActivity_move [OF assms(1) s n, of activity, folded u_def]
  have "getTime (endTime u) - getTime (startTime u) = getTime e0 - getTime s0"
    unfolding eq by (simp add: getTime_def)
  with s show "\<exists>s0 e0. initialStartTime c = Some s0 \<and> initialEndTime c = Some e0
      \<and> getTime (endTime u) - getTime (startTime u) = getTime e0 - getTime s0"
    by blast
  show "durationMinutes u = or_else (initialDuration c) (durationMinutes activity)"
    unfolding eq by simp
qed

lemma drag_end_2300:
  fixes activity :: Activity
  assumes "dragMode c = End" "startTime activity = setHours d 23 0 0 0"
  defines "u \<equiv> updatedActivity c activity (snapAngleTo15Min 15)"
  shows "endTime u = setHours d 1 0 0 0" and "durationMinutes u = 120"
proof -
  have "angleToTime (snapAngleTo15Min (of_int 4 * 15 / 4)) (setHours d 23 0 0 0)
      = Day (setHours d 23 0 0 0) * msPerDay + 4 * 900000"
    by (rule angleToTime_snap_quarter) simp_all
  then have e: "angleToTime (snapAngleTo15Min 15) (setHours d 23 0 0 0) = setHours d 1 0 0 0"
    by (simp add: day_setHours) (simp add: setHours_def)
  show "endTime u = setHours d 1 0 0 0"
    unfolding u_def by (simp add: updatedActivity_end assms(1,2) e)
  have "durationMinutes u = wrappedDiff (setHours d 23 0 0 0) (setHours d 1 0 0 0)"
    unfolding u_def by (simp add: updatedActivity_end assms(1,2) e)
  also have "\<dots> = 120"
    by (simp add: wrappedDiff_def getTime_def setHours_def Let_def)
  finally show "durationMinutes u = 120" .
qed


text \<open>
  Claim C3, as amended. When a pointer-move of a drag changes the start or the end of the
  dragged activity, then: in the start and end modes its \<open>durationMinutes\<close> is the
  difference of end and start in minutes, plus 1440 when negative, and lies from 0 up to,
  not including, 1440 for an angle in the range of the pointer conversion; in the move mode
  the difference of end and start is that of the times recorded at pointer-down and
  \<open>durationMinutes\<close> is the duration recorded then (or, when that is 0, the current
  one), so the equation is kept when it held at pointer-down. Dragging the end of an
  activity that starts at 23:00 to 01:00 gives 120.
\<close>

theorem C3_drag_duration:
  assumes "isDragging c" "draggedActivityId c = Some ident" "ident \<noteq> []"
    and "find (\<lambda>a. act_id a = ident) (activities c) = Some activity"
    and "service (onMove angle c) \<noteq> service c"
  shows "\<exists>u. find (\<lambda>a. act_id a = ident) (activities (onMove angle c)) = Some u
      \<and> hasChanged u activity
      \<and> (dragMode c \<noteq> Move \<longrightarrow>
            durationMinutes u =
              (let diff = of_int (getTime (endTime u) - getTime (startTime u)) / 60000
               in if diff < 0 then diff + 1440 else diff))
      \<and> (dragMode c \<noteq> Move \<and> 0 \<le> angle \<and> angle < 360 \<longrightarrow>
            0 \<le> durationMinutes u \<and> durationMinutes u < 1440)
      \<and> (dragMode c = Move \<longrightarrow>
            (\<exists>s0 e0. initialStartTime c = Some s0 \<and> initialEndTime c = Some e0
               \<and> getTime (endTime u) - getTime (startTime u) = getTime e0 - getTime s0)
            \<and> durationMinutes u = or_else (initialDuration c) (durationMinutes activity))
      \<and> (dragMode c = End \<and> startTime activity = setHours d 23 0 0 0 \<and> angle = 15 \<longrightarrow>
            endTime u = setHours d 1 0 0 0 \<and> durationMinutes u = 120)"
proof -
  define u where "u = updatedActivity c activity (snapAngleTo15Min angle)"
  note ch = onMove_changed [OF assms, folded u_def]
  have 1: "dragMode c \<noteq> Move \<longrightarrow>
      durationMinutes u =
        (let diff = of_int (getTime (endTime u) - getTime (startTime u)) / 60000
         in if diff < 0 then diff + 1440 else diff)"
    using drag_handle_duration(1) [of c activity angle, folded u_def]
    by (simp only: wrappedDiff_formula) blast
  have 2: "dragMode c \<noteq> Move \<and> 0 \<le> angle \<and> angle < 360 \<longrightarrow>
      0 \<le> durationMinutes u \<and> durationMinutes u < 1440"
  proof
    assume a: "dragMode c \<noteq> Move \<and> 0 \<le> angle \<and> angle < 360"
    then have "Day (startTime u) = Day (endTime u)"
      using drag_handle_duration(2) [of c angle activity, folded u_def] by blast
    from wrappedDiff_range [OF this] a
    show "0 \<le> durationMinutes u \<and> durationMinutes u < 1440"
      using drag_handle_duration(1) [of c activity angle, folded u_def] by simp
  qed
  have 3: "dragMode c = Move \<longrightarrow>
      (\<exists>s0 e0. initialStartTime c = Some s0 \<and> initialEndTime c = Some e0
         \<and> getTime (endTime u) - getTime (startTime u) = getTime e0 - getTime s0)
      \<and> durationMinutes u = or_else (initialDuration c) (durationMinutes activity)"
  proof
    assume m: "dragMode c = Move"
    from drag_move_duration [OF m, of activity angle, folded u_def] ch(1)
    show "(\<exists>s0 e0. initialStartTime c = Some s0 \<and> initialEndTime c = Some e0
         \<and> getTime (endTime u) - getTime (startTime u) = getTime e0 - getTime s0)
      \<and> durationMinutes u = or_else (initialDuration c) (durationMinutes activity)"
      by blast
  qed
  have 4: "dragMode c = End \<and> startTime activity = setHours d 23 0 0 0 \<and> angle = 15 \<longrightarrow>
      endTime u = setHours d 1 0 0 0 \<and> durationMinutes u = 120"
  proof
    assume a: "dragMode c = End \<and> startTime activity = setHours d 23 0 0 0 \<and> angle = 15"
    then have "u = updatedActivity c activity (snapAngleTo15Min 15)"
      by (simp add: u_def)
    with drag_end_2300 [of c activity d] a
    show "endTime u = setHours d 1 0 0 0 \<and> durationMinutes u = 120"
      by simp
  qed
  from ch(2) ch(1) 1 2 3 4 show ?thesis
    by (intro exI [of _ u] conjI)
qed


lemma drag_state_single:
  fixes p :: real and mode :: DragMode
  assumes "act_id X = n"
  defines "c \<equiv> handleMouseDown p n mode (exampleComponent [X])"
  shows "isDragging c" "draggedActivityId c = Some n" "dragMode c = mode" "dragStartAngle c = p"
    "hasMoved c = False" "initialStartTime c = Some (startTime X)"
    "initialEndTime c = Some (endTime X)" "initialDuration c = Some (durationMinutes X)"
    "service c = service (exampleComponent [X])"
    "find (\<lambda>a. act_id a = n) (activities c) = Some X"
  unfolding c_def using assms(1)
  by (simp_all add: handleMouseDown_def exampleComponent_def activities_def Let_def)

theorem C3_witness:
  "isDragging (handleMouseDown 0 ''n'' End (exampleComponent [exampleActivity ''n'' 23 0 23 30]))
   \<and> draggedActivityId (handleMouseDown 0 ''n'' End
        (exampleComponent [exampleActivity ''n'' 23 0 23 30])) = Some ''n''
   \<and> ''n'' \<noteq> []
   \<and> find (\<lambda>a. act_id a = ''n'')
        (activities (handleMouseDown 0 ''n'' End
          (exampleComponent [exampleActivity ''n'' 23 0 23 30])))
        = Some (exampleActivity ''n'' 23 0 23 30)
   \<and> service (onMove 15 (handleMouseDown 0 ''n'' End
          (exampleComponent [exampleActivity ''n'' 23 0 23 30])))
        \<noteq> service (handleMouseDown 0 ''n'' End
          (exampleComponent [exampleActivity ''n'' 23 0 23 30]))
   \<and> dragMode (handleMouseDown 0 ''n'' End
        (exampleComponent [exampleActivity ''n'' 23 0 23 30])) = End
   \<and> startTime (exampleActivity ''n'' 23 0 23 30) = setHours 0 23 0 0 0
   \<and> (\<exists>u. find (\<lambda>a. act_id a = ''n'')
          (activities (onMove 15 (handleMouseDown 0 ''n'' End
            (exampleComponent [exampleActivity ''n'' 23 0 23 30])))) = Some u
        \<and> endTime u = setHours 0 1 0 0 0 \<and> durationMinutes u = 120)"
proof -
  let ?A = "exampleActivity ''n'' 23 0 23 30"
  let ?c = "handleMouseDown 0 ''n'' End (exampleComponent [?A])"
  have id: "act_id ?A = ''n''" by (simp add: exampleActivity_def)
  note st = drag_state_single [OF id, of 0 End]
  have h3: "''n'' \<noteq> []" by simp
  have s: "startTime ?A = setHours 0 23 0 0 0" by (simp add: exampleActivity_def)
  have m: "dragMode ?c = End" by (rule st)
  have pass: "hasMoved ?c \<or> Math_abs (15 - dragStartAngle ?c) > 2 \<or> dragMode ?c \<noteq> Move"
    by (simp add: m)
  have "endTime (updatedActivity ?c ?A (snapAngleTo15Min 15)) = setHours 0 1 0 0 0"
    using m s by (rule drag_end_2300)
  then have ch: "hasChanged (updatedActivity ?c ?A (snapAngleTo15Min 15)) ?A"
    by (simp add: hasChanged_def getTime_def exampleActivity_def setHours_def)
  from onMove_push(1) [OF st(1) st(2) h3 st(10) pass ch]
  have "nextCalls (service (onMove 15 ?c)) = nextCalls (service ?c) + 1"
    by (rule conjunct2)
  then have h5: "service (onMove 15 ?c) \<noteq> service ?c"
    by (metis Suc_eq_plus1 n_not_Suc_n)
  from C3_drag_duration [OF st(1) st(2) h3 st(10) h5, of 0]
  obtain u where u: "find (\<lambda>a. act_id a = ''n'') (activities (onMove 15 ?c)) = Some u"
    and last: "dragMode ?c = End \<and> startTime ?A = setHours 0 23 0 0 0 \<and> (15::real) = 15 \<longrightarrow>
        endTime u = setHours 0 1 0 0 0 \<and> durationMinutes u = 120"
    by blast
  from last m s have "endTime u = setHours 0 1 0 0 0 \<and> durationMinutes u = 120"
    by blast
  with u have ex: "\<exists>u. find (\<lambda>a. act_id a = ''n'') (activities (onMove 15 ?c)) = Some u
        \<and> endTime u = setHours 0 1 0 0 0 \<and> durationMinutes u = 120"
    by blast
  show ?thesis
    by (intro conjI st(1) st(2) h3 st(10) h5 m s ex)
qed


lemma snap_150: "snapAngleTo15Min 150 = 150"
  using snap_quarter [of 40] by simp

lemma snap_135: "snapAngleTo15Min 135 = 135"
  using snap_quarter [of 36] by simp

text \<open>
  The duration is not recomputed when the edited copy is saved, nor by a move-mode drag:
  an activity from 09:00 whose end was edited to 11:00 is stored with the old duration of
  60 minutes, and moving that activity by one hour leaves 60 where the times give 120.
\<close>

theorem C3_counterexample:
  "activities (saveActivity ((exampleComponent [exampleActivity ''a'' 9 0 10 0])
       \<lparr>isModalOpen := True,
        editingActivity := Some ((exampleActivity ''a'' 9 0 10 0)\<lparr>endTime := setHours 0 11 0 0 0\<rparr>)\<rparr>))
     = [(exampleActivity ''a'' 9 0 10 0)\<lparr>endTime := setHours 0 11 0 0 0\<rparr>]
   \<and> durationMinutes ((exampleActivity ''a'' 9 0 10 0)\<lparr>endTime := setHours 0 11 0 0 0\<rparr>) = 60
   \<and> wrappedDiff (startTime ((exampleActivity ''a'' 9 0 10 0)\<lparr>endTime := setHours 0 11 0 0 0\<rparr>))
         (endTime ((exampleActivity ''a'' 9 0 10 0)\<lparr>endTime := setHours 0 11 0 0 0\<rparr>)) = 120
   \<and> activities (onMove 150 (handleMouseDown 135 ''a'' Move
         (exampleComponent [(exampleActivity ''a'' 9 0 10 0)\<lparr>endTime := setHours 0 11 0 0 0\<rparr>])))
     = [(exampleActivity ''a'' 9 0 10 0)
          \<lparr>startTime := setHours 0 10 0 0 0, endTime := setHours 0 12 0 0 0\<rparr>]
   \<and> durationMinutes ((exampleActivity ''a'' 9 0 10 0)
          \<lparr>startTime := setHours 0 10 0 0 0, endTime := setHours 0 12 0 0 0\<rparr>) = 60
   \<and> wrappedDiff (setHours 0 10 0 0 0) (setHours 0 12 0 0 0) = 120"
proof -
  let ?A = "exampleActivity ''a'' 9 0 10 0"
  let ?B = "?A\<lparr>endTime := setHours 0 11 0 0 0\<rparr>"
  let ?U = "?A\<lparr>startTime := setHours 0 10 0 0 0, endTime := setHours 0 12 0 0 0\<rparr>"
  let ?c = "handleMouseDown 135 ''a'' Move (exampleComponent [?B])"
  have idB: "act_id ?B = ''a''" by (simp add: exampleActivity_def)
  have 1: "activities (saveActivity ((exampleComponent [?A])
       \<lparr>isModalOpen := True, editingActivity := Some ?B\<rparr>)) = [?B]"
    by (simp add: saveActivity_def closeModal_def updateActivity_def activities_def
        exampleComponent_def saveToStorage_def next_value_def Let_def exampleActivity_def)
  have 2: "durationMinutes ?B = 60"
    by (simp add: exampleActivity_def wrappedDiff_def getTime_def setHours_def Let_def)
  have 3: "wrappedDiff (startTime ?B) (endTime ?B) = 120"
    by (simp add: exampleActivity_def wrappedDiff_def getTime_def setHours_def Let_def)
  note st = drag_state_single [OF idB, of 135 Move]
  have h3: "''a'' \<noteq> []" by simp
  have pass: "hasMoved ?c \<or> Math_abs (150 - dragStartAngle ?c) > 2 \<or> dragMode ?c \<noteq> Move"
    by (simp add: st(4) Math_abs_def)
  have off: "(snapAngleTo15Min 150 - snapAngleTo15Min (dragStartAngle ?c)) / 15 * 60 * 60 * 1000
      = of_int 3600000"
    by (simp add: st(4) snap_150 snap_135)
  have u: "updatedActivity ?c ?B (snapAngleTo15Min 150) = ?U"
    unfolding updatedActivity_move [OF st(3) st(6) st(7) off] st(8)
    by (simp add: or_else_def 2)
      (simp add: exampleActivity_def setHours_def Day_def wrappedDiff_def getTime_def Let_def)
  have ch: "hasChanged ?U ?B"
    by (simp add: hasChanged_def getTime_def exampleActivity_def setHours_def)
  from onMove_push(1) [OF st(1) st(2) h3 st(10) pass, unfolded u, OF ch]
  have "service (onMove 150 ?c) = updateActivity ?U (service ?c)"
    by (rule conjunct1)
  then have 4: "activities (onMove 150 ?c) = [?U]"
    unfolding st(9)
    by (simp add: activities_def updateActivity_def exampleComponent_def saveToStorage_def
        next_value_def Let_def exampleActivity_def)
  have 5: "durationMinutes ?U = 60"
    by (simp add: exampleActivity_def wrappedDiff_def getTime_def setHours_def Let_def)
  have 6: "wrappedDiff (setHours 0 10 0 0 0) (setHours 0 12 0 0 0) = 120"
    by (simp add: wrappedDiff_def getTime_def setHours_def Let_def)
  show ?thesis
    by (intro conjI 1 2 3 4 5 6)
qed

lemma handleMouseDown_fields:
  "isDragging (handleMouseDown p ident mode c)"
  "draggedActivityId (handleMouseDown p ident mode c) = Some ident"
  "dragMode (handleMouseDown p ident mode c) = mode"
  "dragStartAngle (handleMouseDown p ident mode c) = p"
  "service (handleMouseDown p ident mode c) = service c"
  "activities (handleMouseDown p ident mode c) = activities c"
  by (simp_all add: handleMouseDown_def Let_def activities_def split: option.split)

lemma handleMouseDown_found:
  assumes "find (\<lambda>a. act_id a = ident) (activities c) = Some activity"
  shows "hasMoved (handleMouseDown p ident mode c) = False"
    "initialStartTime (handleMouseDown p ident mode c) = Some (startTime activity)"
    "initialEndTime (handleMouseDown p ident mode c) = Some (endTime activity)"
    "initialDuration (handleMouseDown p ident mode c) = Some (durationMinutes activity)"
  using assms by (simp_all add: handleMouseDown_def Let_def activities_def)

lemma onMove_not_found:
  assumes "find (\<lambda>a. act_id a = ident) (activities c) = None" "draggedActivityId c = Some ident"
  shows "service (onMove angle c) = service c"
  using assms by (auto simp: onMove_def Let_def activities_def)

lemma onMove_falsy_id:
  assumes "draggedActivityId c = Some []"
  shows "onMove angle c = c"
  using assms by (simp add: onMove_def truthy_id_def)

lemma press_small_move:
  assumes "Math_abs (a - p) \<le> 2"
  shows "service (onMove a (handleMouseDown p ident Move c)) = service c"
proof (cases "find (\<lambda>x. act_id x = ident) (activities c)")
  case None
  then have "find (\<lambda>x. act_id x = ident) (activities (handleMouseDown p ident Move c)) = None"
    by (simp add: handleMouseDown_fields)
  from onMove_not_found [OF this handleMouseDown_fields(2)]
  show ?thesis by (simp add: handleMouseDown_fields)
next
  case (Some activity)
  have "onMove a (handleMouseDown p ident Move c) = handleMouseDown p ident Move c"
    by (rule onMove_blocked)
      (simp_all add: handleMouseDown_fields handleMouseDown_found [OF Some] assms)
  then show ?thesis by (simp add: handleMouseDown_fields)
qed


lemma hasMoved_onMove:
  assumes "isDragging c" "truthy_id (draggedActivityId c)" "Math_abs (angle - dragStartAngle c) > 2"
  shows "hasMoved (onMove angle c)"
  using assms by (auto simp: onMove_def Let_def split: option.split)

lemma press_big_move:
  assumes "find (\<lambda>x. act_id x = ident) (activities c) = Some activity" "ident \<noteq> []"
    and "Math_abs (a - p) > 2"
  shows "hasMoved (onMove a (handleMouseDown p ident Move c))"
    and "service (onMove a (handleMouseDown p ident Move c)) \<noteq> service c
          \<longleftrightarrow> snapAngleTo15Min a \<noteq> snapAngleTo15Min p"
    and "snapAngleTo15Min a \<noteq> snapAngleTo15Min p \<Longrightarrow>
          \<exists>n::int. of_int n = (snapAngleTo15Min a - snapAngleTo15Min p) / 15 * 60 * 60 * 1000
            \<and> find (\<lambda>x. act_id x = ident) (activities (onMove a (handleMouseDown p ident Move c)))
                = Some (activity\<lparr>startTime := startTime activity + n, endTime := endTime activity + n\<rparr>)"
proof -
  define c1 where "c1 = handleMouseDown p ident Move c"
  note fl = handleMouseDown_fields [of p ident Move c, folded c1_def]
  note fo = handleMouseDown_found [OF assms(1), of p Move, folded c1_def]
  have f: "find (\<lambda>x. act_id x = ident) (activities c1) = Some activity"
    using assms(1) by (simp add: fl)
  have pass: "hasMoved c1 \<or> Math_abs (a - dragStartAngle c1) > 2 \<or> dragMode c1 \<noteq> Move"
    using assms(3) by (simp add: fl)
  show "hasMoved (onMove a c1)"
    by (rule hasMoved_onMove) (simp_all add: fl truthy_id_def assms(2,3))
  obtain n :: int where
    n: "(snapAngleTo15Min a - snapAngleTo15Min (dragStartAngle c1)) / 15 * 60 * 60 * 1000 = of_int n"
    and n0: "n = 0 \<longleftrightarrow> snapAngleTo15Min a = snapAngleTo15Min p"
    using move_offset [of a p] by (auto simp: fl)
  define u where "u = activity\<lparr>startTime := startTime activity + n, endTime := endTime activity + n\<rparr>"
  have u: "updatedActivity c1 activity (snapAngleTo15Min a) = u"
    unfolding updatedActivity_move [OF fl(3) fo(2) fo(3) n] fo(4) u_def
    by (simp add: or_else_def)
  have ch: "hasChanged u activity \<longleftrightarrow> snapAngleTo15Min a \<noteq> snapAngleTo15Min p"
    using n0 by (simp add: hasChanged_def getTime_def u_def)
  note push = onMove_push [OF fl(1) fl(2) assms(2) f pass, unfolded u]
  show "service (onMove a c1) \<noteq> service c \<longleftrightarrow> snapAngleTo15Min a \<noteq> snapAngleTo15Min p"
  proof (cases "hasChanged u activity")
    case True
    from push(1) [OF True] have "nextCalls (service (onMove a c1)) = nextCalls (service c1) + 1"
      by (rule conjunct2)
    then have "service (onMove a c1) \<noteq> service c1"
      by (metis Suc_eq_plus1 n_not_Suc_n)
    with True ch show ?thesis by (simp add: fl)
  next
    case False
    from push(2) [OF False] False ch show ?thesis by (simp add: fl)
  qed
  assume d: "snapAngleTo15Min a \<noteq> snapAngleTo15Min p"
  with ch have c: "hasChanged u activity" by simp
  then have "service (onMove a c1) \<noteq> service c1"
    using push(2) push(1) [OF c, THEN conjunct2] by (metis Suc_eq_plus1 n_not_Suc_n)
  from onMove_changed(2) [OF fl(1) fl(2) assms(2) f this, unfolded u]
  have "find (\<lambda>x. act_id x = ident) (activities (onMove a c1)) = Some u" .
  with n show "\<exists>n::int. of_int n = (snapAngleTo15Min a - snapAngleTo15Min p) / 15 * 60 * 60 * 1000
      \<and> find (\<lambda>x. act_id x = ident) (activities (onMove a c1))
          = Some (activity\<lparr>startTime := startTime activity + n, endTime := endTime activity + n\<rparr>)"
    unfolding u_def by (intro exI [of _ n]) (simp add: fl)
qed


text \<open>
  Claim C4, as amended. In move mode, a pointer-down followed by a pointer-move whose angle
  differs from the press angle by at most 2 degrees (so by 1 degree) never alters the
  store. When the dragged activity is stored and the two angles differ by more than 2
  degrees (so by 3 degrees), the pointer-move sets the \<open>hasMoved\<close> latch, and it alters
  the store exactly when the two angles snap to different multiples of 3.75 degrees; the
  dragged activity then has both its times shifted by the snapped difference, at one hour
  for 15 degrees.
\<close>

theorem C4_move_threshold:
  "(Math_abs (a - p) \<le> 2 \<longrightarrow>
      service (onMove a (handleMouseDown p ident Move c)) = service c)
   \<and> (find (\<lambda>x. act_id x = ident) (activities c) = Some activity \<and> ident \<noteq> []
        \<and> Math_abs (a - p) > 2 \<longrightarrow>
        hasMoved (onMove a (handleMouseDown p ident Move c))
        \<and> (service (onMove a (handleMouseDown p ident Move c)) \<noteq> service c
             \<longleftrightarrow> snapAngleTo15Min a \<noteq> snapAngleTo15Min p)
        \<and> (snapAngleTo15Min a \<noteq> snapAngleTo15Min p \<longrightarrow>
             (\<exists>n::int. of_int n = (snapAngleTo15Min a - snapAngleTo15Min p) / 15 * 60 * 60 * 1000
                \<and> find (\<lambda>x. act_id x = ident)
                     (activities (onMove a (handleMouseDown p ident Move c)))
                    = Some (activity\<lparr>startTime := startTime activity + n,
                                      endTime := endTime activity + n\<rparr>))))"
proof (intro conjI impI)
  assume "Math_abs (a - p) \<le> 2"
  then show "service (onMove a (handleMouseDown p ident Move c)) = service c"
    by (rule press_small_move)
next
  assume h: "find (\<lambda>x. act_id x = ident) (activities c) = Some activity \<and> ident \<noteq> []
      \<and> Math_abs (a - p) > 2"
  then have h1: "find (\<lambda>x. act_id x = ident) (activities c) = Some activity"
    and h2: "ident \<noteq> []" and h3: "Math_abs (a - p) > 2"
    by simp_all
  note big = press_big_move [OF h1 h2 h3]
  show "hasMoved (onMove a (handleMouseDown p ident Move c))"
    by (rule big(1))
  show "service (onMove a (handleMouseDown p ident Move c)) \<noteq> service c
      \<longleftrightarrow> snapAngleTo15Min a \<noteq> snapAngleTo15Min p"
    by (rule big(2))
  show "\<exists>n::int. of_int n = (snapAngleTo15Min a - snapAngleTo15Min p) / 15 * 60 * 60 * 1000
      \<and> find (\<lambda>x. act_id x = ident) (activities (onMove a (handleMouseDown p ident Move c)))
          = Some (activity\<lparr>startTime := startTime activity + n, endTime := endTime activity + n\<rparr>)"
    if "snapAngleTo15Min a \<noteq> snapAngleTo15Min p"
    using that by (rule big(3))
qed

lemma example_find:
  "find (\<lambda>x. act_id x = n) (activities (exampleComponent [exampleActivity n h1 m1 h2 m2]))
     = Some (exampleActivity n h1 m1 h2 m2)"
  by (simp add: exampleComponent_def activities_def exampleActivity_def)

theorem C4_witness:
  "Math_abs (136 - 135) \<le> 2
   \<and> service (onMove 136 (handleMouseDown 135 ''a'' Move
        (exampleComponent [exampleActivity ''a'' 9 0 10 0])))
      = service (exampleComponent [exampleActivity ''a'' 9 0 10 0])
   \<and> find (\<lambda>x. act_id x = ''a'') (activities (exampleComponent [exampleActivity ''a'' 9 0 10 0]))
      = Some (exampleActivity ''a'' 9 0 10 0)
   \<and> ''a'' \<noteq> []
   \<and> Math_abs (150 - 135) > 2
   \<and> snapAngleTo15Min 150 \<noteq> snapAngleTo15Min 135
   \<and> hasMoved (onMove 150 (handleMouseDown 135 ''a'' Move
        (exampleComponent [exampleActivity ''a'' 9 0 10 0])))
   \<and> service (onMove 150 (handleMouseDown 135 ''a'' Move
        (exampleComponent [exampleActivity ''a'' 9 0 10 0])))
      \<noteq> service (exampleComponent [exampleActivity ''a'' 9 0 10 0])"
proof -
  let ?A = "exampleActivity ''a'' 9 0 10 0"
  let ?c = "exampleComponent [?A]"
  have g1: "Math_abs (136 - 135) \<le> 2" by (simp add: Math_abs_def)
  have g2: "find (\<lambda>x. act_id x = ''a'') (activities ?c) = Some ?A" by (rule example_find)
  have g3: "''a'' \<noteq> []" by simp
  have g4: "Math_abs (150 - 135) > 2" by (simp add: Math_abs_def)
  have g5: "snapAngleTo15Min 150 \<noteq> snapAngleTo15Min 135" by (simp add: snap_150 snap_135)
  note small = C4_move_threshold [of 136 135 "''a''" ?c ?A, THEN conjunct1, THEN mp, OF g1]
  from g2 g3 g4 have g: "find (\<lambda>x. act_id x = ''a'') (activities ?c) = Some ?A \<and> ''a'' \<noteq> []
      \<and> Math_abs (150 - 135) > 2"
    by (intro conjI)
  note big = C4_move_threshold [of 150 135 "''a''" ?c ?A, THEN conjunct2, THEN mp, OF g]
  note b1 = big [THEN conjunct1]
  note b2 = big [THEN conjunct2, THEN conjunct1, THEN iffD2, OF g5]
  show ?thesis
    by (intro conjI g1 small g2 g3 g4 g5 b1 b2)
qed

text \<open>
  A pointer-move of 3 degrees that stays within one snapping interval alters nothing:
  pressing at 2 degrees and moving to 5 degrees, both of which snap to 3.75 degrees.
\<close>

theorem C4_counterexample:
  "Math_abs (5 - 2) = 3
   \<and> find (\<lambda>x. act_id x = ''a'') (activities (exampleComponent [exampleActivity ''a'' 9 0 10 0]))
      = Some (exampleActivity ''a'' 9 0 10 0)
   \<and> service (onMove 5 (handleMouseDown 2 ''a'' Move
        (exampleComponent [exampleActivity ''a'' 9 0 10 0])))
      = service (exampleComponent [exampleActivity ''a'' 9 0 10 0])"
proof -
  let ?A = "exampleActivity ''a'' 9 0 10 0"
  let ?c = "exampleComponent [?A]"
  have 1: "Math_abs (5 - 2) = 3" by (simp add: Math_abs_def)
  have 2: "find (\<lambda>x. act_id x = ''a'') (activities ?c) = Some ?A" by (rule example_find)
  have s: "snapAngleTo15Min 5 = snapAngleTo15Min 2"
    by (simp add: snapAngleTo15Min_def Math_round_def)
  have "Math_abs (5 - 2) > 2" by (simp add: Math_abs_def)
  from press_big_move(2) [OF 2 _ this] s
  have 3: "service (onMove 5 (handleMouseDown 2 ''a'' Move ?c)) = service ?c"
    by simp
  show ?thesis by (intro conjI 1 2 3)
qed

end
